theory Spec2Isabelle
  imports Main "HOL-Library.Word"
begin

unbundle bit_operations_syntax

section \<open>Common notions\<close>

text \<open>
  A failed \<^verbatim>\<open>assert\<close>, a dereferenced null pointer and a read of a word that
  holds no link or no work item end the program; they are results of the model.
  A \<^verbatim>\<open>std::size_t\<close> counter of the queue is a 64-bit word: \<open>+\<close> wraps around and
  the comparisons are unsigned, as in the source.
\<close>

datatype fault = Assertion_failed | Null_dereference | Invalid_access

type_synonym size_t = "64 word"

text \<open>
  \<^verbatim>\<open>boost::detail::spinlock\<close>: free, or held. The holder's thread is recorded so that
  "held by the thread that swaps" can be stated. \<^verbatim>\<open>try_lock\<close> never blocks and
  fails on a held lock, also for the holder itself.
\<close>

type_synonym tid = nat
type_synonym spinlock = "tid option"

definition try_lock :: "tid \<Rightarrow> spinlock \<Rightarrow> bool \<times> spinlock" where
  "try_lock t l = (if l = None then (True, Some t) else (False, l))"

definition unlock :: "spinlock \<Rightarrow> spinlock" where
  "unlock l = None"

section \<open>tpd.hpp: the two-page disruptor\<close>

subsection \<open>tpd_consume_result\<close>

type_synonym outcome = "32 word"

definition cr_no_more_work :: outcome where
  "cr_no_more_work = 0"

definition cr_consumed :: outcome where
  "cr_consumed = push_bit 0 1"

definition cr_queue_not_empty :: outcome where
  "cr_queue_not_empty = push_bit 1 1"

definition cr_consumer_congestion :: outcome where
  "cr_consumer_congestion = push_bit 2 1"

definition cr_success :: outcome where
  "cr_success = cr_consumed OR cr_queue_not_empty"

definition cr_too_many_consumers :: outcome where
  "cr_too_many_consumers = cr_consumer_congestion OR cr_queue_not_empty"

definition too_many_consumers :: "outcome \<Rightarrow> bool" where
  "too_many_consumers r = (0 \<noteq> r AND cr_consumer_congestion)"

definition queue_not_empty :: "outcome \<Rightarrow> bool" where
  "queue_not_empty r = (0 \<noteq> r AND cr_queue_not_empty)"

definition consumed :: "outcome \<Rightarrow> bool" where
  "consumed r = (0 \<noteq> r AND cr_consumed)"

subsection \<open>State\<close>

text \<open>
  The two buffers handed to \<^verbatim>\<open>init\<close> are named by \<open>page_ref\<close>; a
  \<^verbatim>\<open>buffer_type*\<close> is a \<open>page_ref option\<close>, \<open>None\<close> being NULL. A buffer
  is what the queue needs of \<^verbatim>\<open>buffer_type\<close>: its sequence number and the
  contents that \<^verbatim>\<open>clear()\<close> resets. \<open>swap_log\<close> is a history variable:
  each call of \<^verbatim>\<open>switch_pages\<close> records the calling thread and the holders of
  the two locks at the moment of the call.
\<close>

datatype page_ref = Buffer1 | Buffer2

record 'c buffer =
  sequence_number :: size_t
  impl :: 'c

record 'c tpd =
  inserting :: spinlock
  last_inserted_sequence_number :: size_t
  inserter_switched_pages :: size_t
  seq_no_generator :: size_t
  consuming :: spinlock
  last_consumed_sequence_number :: size_t
  inserter :: "page_ref option"
  consumer :: "page_ref option"
  last_enqueued_sequence_number :: size_t
  consumer_couldnt_switch :: size_t
  page :: "page_ref \<Rightarrow> 'c buffer"
  swap_log :: "(tid \<times> spinlock \<times> spinlock) list"

text \<open>
  \<^verbatim>\<open>insert_transaction\<close> and \<^verbatim>\<open>consume_transaction\<close> have the same two
  fields. There is one queue in the model, so \<^verbatim>\<open>parent_\<close> is a flag: set when
  the transaction points at the queue.
\<close>

record transaction =
  buffer :: "page_ref option"
  parent :: bool

definition new_transaction :: transaction where
  "new_transaction = \<lparr>buffer = None, parent = False\<rparr>"

definition transaction_init :: "page_ref option \<Rightarrow> transaction \<Rightarrow> fault + transaction" where
  "transaction_init b x =
     (if buffer x \<noteq> None \<or> parent x then Inl Assertion_failed
      else Inr \<lparr>buffer = b, parent = True\<rparr>)"

definition initialized :: "'c tpd \<Rightarrow> bool" where
  "initialized s = (inserter s \<noteq> None \<and> consumer s \<noteq> None)"

definition empty_tpd :: "'c tpd \<Rightarrow> fault + bool" where
  "empty_tpd s =
     (if \<not> initialized s then Inl Assertion_failed
      else Inr (last_inserted_sequence_number s = last_consumed_sequence_number s))"

definition set_sequence_number :: "page_ref \<Rightarrow> size_t \<Rightarrow> 'c tpd \<Rightarrow> 'c tpd" where
  "set_sequence_number p n s = s\<lparr>page := (page s)(p := (page s p)\<lparr>sequence_number := n\<rparr>)\<rparr>"

definition get_sequence_number :: "page_ref \<Rightarrow> 'c tpd \<Rightarrow> size_t" where
  "get_sequence_number p s = sequence_number (page s p)"

text \<open>
  The constructor sets \<^verbatim>\<open>seq_no_generator_\<close> and the two pointers; the other
  fields are indeterminate until \<^verbatim>\<open>init\<close>, so \<open>constructed\<close> is a predicate.
\<close>

definition constructed :: "'c tpd \<Rightarrow> bool" where
  "constructed s = (seq_no_generator s = 1 \<and> inserter s = None \<and> consumer s = None
     \<and> swap_log s = [])"

definition init :: "page_ref \<Rightarrow> page_ref \<Rightarrow> 'c tpd \<Rightarrow> fault + 'c tpd" where
  "init buffer1 buffer2 s =
     (if initialized s then Inl Assertion_failed
      else
        let s1 = s\<lparr>inserting := None, consuming := None,
                    inserter := Some buffer1, consumer := Some buffer2,
                    last_inserted_sequence_number := 1,
                    last_enqueued_sequence_number := 1,
                    last_consumed_sequence_number := 1,
                    consumer_couldnt_switch := 0,
                    inserter_switched_pages := 0\<rparr>;
            s2 = set_sequence_number buffer2 0 s1
        in Inr (set_sequence_number buffer1 0 s2))"

subsection \<open>switch_pages\<close>

definition switch_pages :: "tid \<Rightarrow> 'c tpd \<Rightarrow> fault + 'c tpd" where
  "switch_pages t s =
     (let s1 = s\<lparr>inserter := consumer s, consumer := inserter s,
                  swap_log := swap_log s @ [(t, inserting s, consuming s)]\<rparr>
      in case consumer s1 of
           None \<Rightarrow> Inl Null_dereference
         | Some c \<Rightarrow>
             if \<not> (get_sequence_number c s1 > last_enqueued_sequence_number s1)
             then Inl Assertion_failed
             else Inr (s1\<lparr>last_enqueued_sequence_number := get_sequence_number c s1\<rparr>))"

subsection \<open>Producer side\<close>

text \<open>
  \<^verbatim>\<open>buffer_type::clear\<close> is the parameter \<open>clr\<close>; it walks a chain, so it may
  not return (\<open>None\<close>) or may read a word that holds no link (a fault). \<^verbatim>\<open>inserting_.lock()\<close> spins while the lock is held:
  a call on a held lock does not return in a sequential run (\<open>None\<close>), and in an
  interleaved run the call takes its step once the lock is free.
\<close>

definition clear_page ::
  "('c \<Rightarrow> (fault + 'c) option) \<Rightarrow> page_ref \<Rightarrow> 'c tpd \<Rightarrow> (fault + 'c tpd) option" where
  "clear_page clr p s =
     (case clr (impl (page s p)) of
        None \<Rightarrow> None
      | Some (Inl f) \<Rightarrow> Some (Inl f)
      | Some (Inr c) \<Rightarrow> Some (Inr (s\<lparr>page := (page s)(p := (page s p)\<lparr>impl := c\<rparr>)\<rparr>)))"

definition begin_insert ::
  "('c \<Rightarrow> (fault + 'c) option) \<Rightarrow> tid \<Rightarrow> transaction \<Rightarrow> 'c tpd \<Rightarrow> (fault + bool \<times> transaction \<times> 'c tpd) option" where
  "begin_insert clr t x s =
     (if \<not> initialized s then Some (Inl Assertion_failed)
      else if buffer x \<noteq> None then Some (Inl Assertion_failed)
      else if inserting s \<noteq> None then None
      else
        let s1 = s\<lparr>inserting := Some t, seq_no_generator := seq_no_generator s + 1\<rparr>;
            sn = seq_no_generator s1
        in case transaction_init (inserter s1) x of
             Inl f \<Rightarrow> Some (Inl f)
           | Inr x1 \<Rightarrow>
              (case inserter s1 of
                 None \<Rightarrow> Some (Inl Null_dereference)
               | Some i \<Rightarrow>
                   let isn = get_sequence_number i s1;
                       esn = last_enqueued_sequence_number s1;
                       result = (isn \<le> esn)
                   in (case (if isn < esn then clear_page clr i s1 else Some (Inr s1)) of
                         None \<Rightarrow> None
                       | Some (Inl f) \<Rightarrow> Some (Inl f)
                       | Some (Inr s2) \<Rightarrow>
                           Some (Inr (result, x1,
                             (set_sequence_number i sn s2)\<lparr>last_inserted_sequence_number := sn\<rparr>)))))"

definition warmup_before_inserting :: "('c \<Rightarrow> (fault + 'c) option) \<Rightarrow> tid \<Rightarrow> 'c tpd \<Rightarrow> (fault + 'c tpd) option" where
  "warmup_before_inserting clr t s =
     (if \<not> initialized s then Some (Inl Assertion_failed)
      else if inserting s \<noteq> None then None
      else
        let s1 = s\<lparr>inserting := Some t\<rparr>
        in case inserter s1 of
             None \<Rightarrow> Some (Inl Null_dereference)
           | Some i \<Rightarrow>
               let isn = get_sequence_number i s1;
                   esn = last_enqueued_sequence_number s1
               in (if isn < esn then
                     (case clear_page clr i s1 of
                        None \<Rightarrow> None
                      | Some (Inl f) \<Rightarrow> Some (Inl f)
                      | Some (Inr s2) \<Rightarrow> Some (Inr ((set_sequence_number i esn s2)\<lparr>inserting := unlock (inserting s2)\<rparr>)))
                   else Some (Inr (s1\<lparr>inserting := unlock (inserting s1)\<rparr>))))"

definition insert_commit :: "tid \<Rightarrow> transaction \<Rightarrow> 'c tpd \<Rightarrow> fault + transaction \<times> 'c tpd" where
  "insert_commit t x s =
     (if parent x then
        (case
           (if inserter_switched_pages s \<noteq> consumer_couldnt_switch s then
              let (locked, l) = try_lock t (consuming s);
                  s1 = s\<lparr>consuming := l\<rparr>
              in case
                   (if locked \<and> \<not> (last_enqueued_sequence_number s1 > last_consumed_sequence_number s1)
                    then (case switch_pages t s1 of
                            Inl f \<Rightarrow> Inl f
                          | Inr s2 \<Rightarrow> Inr (s2\<lparr>inserter_switched_pages := consumer_couldnt_switch s2\<rparr>))
                    else Inr s1) of
                   Inl f \<Rightarrow> Inl f
                 | Inr s3 \<Rightarrow> Inr (if locked then s3\<lparr>consuming := unlock (consuming s3)\<rparr> else s3)
            else Inr s) of
           Inl f \<Rightarrow> Inl f
         | Inr s4 \<Rightarrow> Inr (\<lparr>buffer = None, parent = False\<rparr>, s4\<lparr>inserting := unlock (inserting s4)\<rparr>))
      else Inr (\<lparr>buffer = None, parent = False\<rparr>, s))"

subsection \<open>Consumer side\<close>

definition try_consume_acquire :: "tid \<Rightarrow> transaction \<Rightarrow> 'c tpd \<Rightarrow> fault + outcome \<times> transaction \<times> 'c tpd" where
  "try_consume_acquire t x s =
     (let (locked, l) = try_lock t (consuming s)
      in if \<not> locked then Inr (cr_too_many_consumers, x, s)
         else
           let s1 = s\<lparr>consuming := l\<rparr>
           in case transaction_init (consumer s1) x of
                Inl f \<Rightarrow> Inl f
              | Inr x1 \<Rightarrow>
                 (case consumer s1 of
                    None \<Rightarrow> Inl Null_dereference
                  | Some c \<Rightarrow>
                      Inr (cr_success, x1,
                           s1\<lparr>last_consumed_sequence_number := get_sequence_number c s1\<rparr>)))"

definition try_consume :: "tid \<Rightarrow> transaction \<Rightarrow> 'c tpd \<Rightarrow> fault + outcome \<times> transaction \<times> 'c tpd" where
  "try_consume t x s =
     (if \<not> initialized s then Inl Assertion_failed
      else if buffer x \<noteq> None then Inl Assertion_failed
      else if \<not> (last_enqueued_sequence_number s > last_consumed_sequence_number s) then
        (let (locked, l) = try_lock t (inserting s)
         in if \<not> locked then
              Inr (cr_queue_not_empty, x, s\<lparr>consumer_couldnt_switch := consumer_couldnt_switch s + 1\<rparr>)
            else if last_inserted_sequence_number s > last_enqueued_sequence_number s then
              (case switch_pages t (s\<lparr>inserting := l\<rparr>) of
                 Inl f \<Rightarrow> Inl f
               | Inr s2 \<Rightarrow>
                   let s3 = s2\<lparr>inserting := unlock (inserting s2)\<rparr>
                   in if \<not> (last_enqueued_sequence_number s3 > last_consumed_sequence_number s3)
                      then Inr (cr_no_more_work, x, s3)
                      else try_consume_acquire t x s3)
            else Inr (cr_no_more_work, x, s))
      else try_consume_acquire t x s)"

definition consume_commit :: "tid \<Rightarrow> transaction \<Rightarrow> 'c tpd \<Rightarrow> fault + transaction \<times> 'c tpd" where
  "consume_commit t x s =
     (if parent x then
        (let (locked, l) = try_lock t (inserting s);
             s1 = s\<lparr>inserting := l\<rparr>
         in case
              (if locked \<and> last_inserted_sequence_number s1 > last_enqueued_sequence_number s1
               then switch_pages t s1 else Inr s1) of
              Inl f \<Rightarrow> Inl f
            | Inr s2 \<Rightarrow>
                let s3 = (if locked then s2\<lparr>inserting := unlock (inserting s2)\<rparr> else s2)
                in Inr (\<lparr>buffer = None, parent = False\<rparr>, s3\<lparr>consuming := unlock (consuming s3)\<rparr>))
      else Inr (\<lparr>buffer = None, parent = False\<rparr>, s))"

subsection \<open>Runs of the queue\<close>

text \<open>
  One step of a run is one whole call of the public interface by some thread: the calls
  of a run follow one another and do not overlap in time. Threads take turns between
  calls, so one thread may be inside an insert transaction while another consumes, but
  the statements of two calls are not interleaved; runs in which they are lie outside
  \<open>reachable\<close>. A commit is a step of the thread whose transaction is bound, which is the
  thread that holds the corresponding lock; a commit of an unbound transaction changes
  nothing. The stream hands two distinct buffers to \<^verbatim>\<open>init\<close>. \<open>run clr n s\<close> says
  that \<open>s\<close> is reached after \<^verbatim>\<open>init\<close> by such calls, \<open>n\<close> of which are calls of
  \<^verbatim>\<open>begin_insert\<close>, the one operation that takes a number from the sequence number
  generator.
\<close>

inductive tpd_op :: "('c \<Rightarrow> (fault + 'c) option) \<Rightarrow> 'c tpd \<Rightarrow> 'c tpd \<Rightarrow> bool" for clr where
  op_begin_insert:
    "begin_insert clr t new_transaction s = Some (Inr (r, x, s')) \<Longrightarrow> tpd_op clr s s'"
| op_warmup:
    "warmup_before_inserting clr t s = Some (Inr s') \<Longrightarrow> tpd_op clr s s'"
| op_insert_commit:
    "parent x \<Longrightarrow> inserting s = Some t \<Longrightarrow> insert_commit t x s = Inr (x', s') \<Longrightarrow> tpd_op clr s s'"
| op_try_consume:
    "try_consume t new_transaction s = Inr (r, x, s') \<Longrightarrow> tpd_op clr s s'"
| op_consume_commit:
    "parent x \<Longrightarrow> consuming s = Some t \<Longrightarrow> consume_commit t x s = Inr (x', s') \<Longrightarrow> tpd_op clr s s'"

inductive reachable :: "('c \<Rightarrow> (fault + 'c) option) \<Rightarrow> 'c tpd \<Rightarrow> bool" for clr where
  reachable_init:
    "constructed s0 \<Longrightarrow> b1 \<noteq> b2 \<Longrightarrow> init b1 b2 s0 = Inr s \<Longrightarrow> reachable clr s"
| reachable_op:
    "reachable clr s \<Longrightarrow> tpd_op clr s s' \<Longrightarrow> reachable clr s'"

inductive run :: "('c \<Rightarrow> (fault + 'c) option) \<Rightarrow> nat \<Rightarrow> 'c tpd \<Rightarrow> bool" for clr where
  run_init:
    "constructed s0 \<Longrightarrow> b1 \<noteq> b2 \<Longrightarrow> init b1 b2 s0 = Inr s \<Longrightarrow> run clr 0 s"
| run_begin_insert:
    "run clr n s \<Longrightarrow> begin_insert clr t new_transaction s = Some (Inr (r, x, s'))
       \<Longrightarrow> run clr (Suc n) s'"
| run_warmup:
    "run clr n s \<Longrightarrow> warmup_before_inserting clr t s = Some (Inr s') \<Longrightarrow> run clr n s'"
| run_insert_commit:
    "run clr n s \<Longrightarrow> parent x \<Longrightarrow> inserting s = Some t \<Longrightarrow> insert_commit t x s = Inr (x', s')
       \<Longrightarrow> run clr n s'"
| run_try_consume:
    "run clr n s \<Longrightarrow> try_consume t new_transaction s = Inr (r, x, s') \<Longrightarrow> run clr n s'"
| run_consume_commit:
    "run clr n s \<Longrightarrow> parent x \<Longrightarrow> consuming s = Some t \<Longrightarrow> consume_commit t x s = Inr (x', s')
       \<Longrightarrow> run clr n s'"

definition sn_ordered :: "'c tpd \<Rightarrow> bool" where
  "sn_ordered s = (last_inserted_sequence_number s \<ge> last_enqueued_sequence_number s
     \<and> last_enqueued_sequence_number s \<ge> last_consumed_sequence_number s)"

definition sn_monotone :: "'c tpd \<Rightarrow> 'c tpd \<Rightarrow> bool" where
  "sn_monotone s s' = (last_inserted_sequence_number s \<le> last_inserted_sequence_number s'
     \<and> last_enqueued_sequence_number s \<le> last_enqueued_sequence_number s'
     \<and> last_consumed_sequence_number s \<le> last_consumed_sequence_number s')"

text \<open>
  The invariant of a run in which the sequence number generator has not wrapped around;
  the ordering of the sequence numbers follows from it.
\<close>

definition tpd_inv :: "'c tpd \<Rightarrow> bool" where
  "tpd_inv s = (\<exists>i c. inserter s = Some i \<and> consumer s = Some c \<and> i \<noteq> c
     \<and> last_consumed_sequence_number s \<le> last_enqueued_sequence_number s
     \<and> last_enqueued_sequence_number s \<le> last_inserted_sequence_number s
     \<and> last_inserted_sequence_number s \<le> seq_no_generator s
     \<and> get_sequence_number i s \<le> last_inserted_sequence_number s
     \<and> get_sequence_number c s \<le> last_enqueued_sequence_number s
     \<and> (last_enqueued_sequence_number s > last_consumed_sequence_number s
          \<longrightarrow> get_sequence_number c s = last_enqueued_sequence_number s)
     \<and> (last_inserted_sequence_number s > last_enqueued_sequence_number s
          \<longrightarrow> get_sequence_number i s = last_inserted_sequence_number s)
     \<and> (inserting s \<noteq> None
          \<longrightarrow> last_inserted_sequence_number s > last_enqueued_sequence_number s))"

subsection \<open>A short run, state by state\<close>

text \<open>
  A queue over buffers without contents: constructed, initialised, thread 0 inside an
  insert, the insert committed, and thread 1 holding the page after
  \<^verbatim>\<open>try_consume\<close>.
\<close>

definition no_clear :: "unit \<Rightarrow> (fault + unit) option" where
  "no_clear c = Some (Inr c)"

definition blank :: "page_ref \<Rightarrow> unit buffer" where
  "blank = (\<lambda>p. \<lparr>sequence_number = 0, impl = ()\<rparr>)"

definition tpd_constructed :: "unit tpd" where
  "tpd_constructed = \<lparr>inserting = None, last_inserted_sequence_number = 0,
     inserter_switched_pages = 0, seq_no_generator = 1, consuming = None,
     last_consumed_sequence_number = 0, inserter = None, consumer = None,
     last_enqueued_sequence_number = 0, consumer_couldnt_switch = 0,
     page = blank, swap_log = []\<rparr>"

definition tpd_ready :: "unit tpd" where
  "tpd_ready = \<lparr>inserting = None, last_inserted_sequence_number = 1,
     inserter_switched_pages = 0, seq_no_generator = 1, consuming = None,
     last_consumed_sequence_number = 1, inserter = Some Buffer1, consumer = Some Buffer2,
     last_enqueued_sequence_number = 1, consumer_couldnt_switch = 0,
     page = blank, swap_log = []\<rparr>"

definition tpd_inserting :: "unit tpd" where
  "tpd_inserting = \<lparr>inserting = Some 0, last_inserted_sequence_number = 2,
     inserter_switched_pages = 0, seq_no_generator = 2, consuming = None,
     last_consumed_sequence_number = 1, inserter = Some Buffer1, consumer = Some Buffer2,
     last_enqueued_sequence_number = 1, consumer_couldnt_switch = 0,
     page = blank(Buffer1 := \<lparr>sequence_number = 2, impl = ()\<rparr>), swap_log = []\<rparr>"

definition tpd_one_pending :: "unit tpd" where
  "tpd_one_pending = tpd_inserting\<lparr>inserting := None\<rparr>"

definition tpd_consuming :: "unit tpd" where
  "tpd_consuming = \<lparr>inserting = None, last_inserted_sequence_number = 2,
     inserter_switched_pages = 0, seq_no_generator = 2, consuming = Some 1,
     last_consumed_sequence_number = 2, inserter = Some Buffer2, consumer = Some Buffer1,
     last_enqueued_sequence_number = 2, consumer_couldnt_switch = 0,
     page = blank(Buffer1 := \<lparr>sequence_number = 2, impl = ()\<rparr>), swap_log = [(1, Some 1, None)]\<rparr>"

text \<open>
  The run continued: thread 1 has committed; then a state in which thread 1 consumes
  \<open>Buffer1\<close> while thread 0 inserts into \<open>Buffer2\<close>, that state after thread 0 committed, and
  what a second consumer, thread 2, makes of it. \<open>swapped_under_both_locks\<close> reads an entry
  of the swap log: the thread that swapped held both locks.
\<close>

definition tpd_consumed :: "unit tpd" where
  "tpd_consumed = tpd_consuming\<lparr>consuming := None\<rparr>"

definition swapped_under_both_locks :: "tid \<times> spinlock \<times> spinlock \<Rightarrow> bool" where
  "swapped_under_both_locks e = (case e of (t, i, c) \<Rightarrow> i = Some t \<and> c = Some t)"

definition tpd_inserting_again :: "unit tpd" where
  "tpd_inserting_again = \<lparr>inserting = Some 0, last_inserted_sequence_number = 3,
     inserter_switched_pages = 0, seq_no_generator = 3, consuming = Some 1,
     last_consumed_sequence_number = 2, inserter = Some Buffer2, consumer = Some Buffer1,
     last_enqueued_sequence_number = 2, consumer_couldnt_switch = 0,
     page = blank(Buffer1 := \<lparr>sequence_number = 2, impl = ()\<rparr>, Buffer2 := \<lparr>sequence_number = 3, impl = ()\<rparr>),
     swap_log = [(1, Some 1, None)]\<rparr>"

definition tpd_draining :: "unit tpd" where
  "tpd_draining = tpd_inserting_again\<lparr>inserting := None\<rparr>"

definition tpd_swapped_under_consumer :: "unit tpd" where
  "tpd_swapped_under_consumer = tpd_draining\<lparr>inserter := Some Buffer1, consumer := Some Buffer2,
     last_enqueued_sequence_number := 3,
     swap_log := [(1, Some 1, None), (2, Some 2, Some 1)]\<rparr>"




subsection \<open>Parts of calls\<close>

text \<open>
  In a run of whole calls the statements of \<^verbatim>\<open>switch_pages\<close> and of \<^verbatim>\<open>try_consume\<close> are
  never separated. To follow two consumers whose calls overlap, their parts are named:
  in \<^verbatim>\<open>switch_pages\<close>, the exchange of the two pointers, and then the assertion and the
  update of the last enqueued sequence number; at the end of \<^verbatim>\<open>try_consume\<close>, the
  \<^verbatim>\<open>try_lock\<close> of the consuming lock, and then the initialisation of the transaction
  and the update of the last consumed sequence number.
\<close>

definition switch_pages_swap :: "tid \<Rightarrow> 'c tpd \<Rightarrow> 'c tpd" where
  "switch_pages_swap t s =
     s\<lparr>inserter := consumer s, consumer := inserter s,
       swap_log := swap_log s @ [(t, inserting s, consuming s)]\<rparr>"

definition switch_pages_publish :: "'c tpd \<Rightarrow> fault + 'c tpd" where
  "switch_pages_publish s =
     (case consumer s of
        None \<Rightarrow> Inl Null_dereference
      | Some c \<Rightarrow>
          if \<not> (get_sequence_number c s > last_enqueued_sequence_number s)
          then Inl Assertion_failed
          else Inr (s\<lparr>last_enqueued_sequence_number := get_sequence_number c s\<rparr>))"

definition try_consume_lock :: "tid \<Rightarrow> 'c tpd \<Rightarrow> bool \<times> 'c tpd" where
  "try_consume_lock t s = (let (locked, l) = try_lock t (consuming s) in (locked, s\<lparr>consuming := l\<rparr>))"

definition try_consume_init :: "transaction \<Rightarrow> 'c tpd \<Rightarrow> fault + transaction \<times> 'c tpd" where
  "try_consume_init x s =
     (case transaction_init (consumer s) x of
        Inl f \<Rightarrow> Inl f
      | Inr x1 \<Rightarrow>
         (case consumer s of
            None \<Rightarrow> Inl Null_dereference
          | Some c \<Rightarrow> Inr (x1, s\<lparr>last_consumed_sequence_number := get_sequence_number c s\<rparr>)))"

text \<open>
  Two consumers and a producer. Thread 1 has swapped the pages and taken the consuming
  lock, and has not yet read the consumer page; thread 0 has inserted the next generation
  and committed; thread 2, which had found nothing to consume before all this, has taken
  the inserting lock and exchanged the pointers; thread 1 has read the consumer page;
  thread 2 has updated the last enqueued sequence number and released the inserting lock.
\<close>

definition tpd_consumer_locked :: "unit tpd" where
  "tpd_consumer_locked = tpd_consuming\<lparr>last_consumed_sequence_number := 1\<rparr>"

definition tpd_next_inserted :: "unit tpd" where
  "tpd_next_inserted = tpd_draining\<lparr>last_consumed_sequence_number := 1\<rparr>"

definition tpd_pointers_exchanged :: "unit tpd" where
  "tpd_pointers_exchanged = tpd_next_inserted\<lparr>inserting := Some 2,
     inserter := Some Buffer1, consumer := Some Buffer2,
     swap_log := [(1, Some 1, None), (2, Some 2, Some 1)]\<rparr>"

definition tpd_consumed_ahead :: "unit tpd" where
  "tpd_consumed_ahead = tpd_pointers_exchanged\<lparr>last_consumed_sequence_number := 3\<rparr>"

definition tpd_generation_lost :: "unit tpd" where
  "tpd_generation_lost = tpd_consumed_ahead\<lparr>last_enqueued_sequence_number := 3, inserting := None\<rparr>"

section \<open>async_ostream.cpp: the arena allocator\<close>

text \<open>
  \<^verbatim>\<open>allocator::impl\<close> keeps work items in a chain of pages. A page is an array of
  \<^verbatim>\<open>std::size_t\<close> words; a record is one link word (the address of the next record,
  or 0 at the end of the chain) followed by the work item and its payload.

  Sizes are those of an LP64 platform: a \<^verbatim>\<open>std::size_t\<close> has 8 bytes, and
  \<^verbatim>\<open>page_break\<close>, a class with nothing but a virtual table pointer, has 8 bytes too.
\<close>

definition sizeof_size_t :: nat where
  "sizeof_size_t = 8"

definition sizeof_page_break :: nat where
  "sizeof_page_break = 8"

definition page_break_size_in_std_size_ts :: nat where
  "page_break_size_in_std_size_ts = (sizeof_page_break + sizeof_size_t - 1) div sizeof_size_t"

text \<open>
  A pointer into a page is the pair of the page's identity and a word offset from its
  \<^verbatim>\<open>storage_begin_\<close>. \<^verbatim>\<open>&p[n]\<close> is \<open>ptr_add p n\<close>. The comparison
  \<^verbatim>\<open>next < end_of_page_\<close> of the source is only ever made between a pointer derived
  from \<^verbatim>\<open>cursor_\<close> and the end of the page \<^verbatim>\<open>cursor_\<close> is on; \<open>ptr_less\<close> is that
  comparison, and is false between different pages.
\<close>

type_synonym addr = "nat \<times> nat"

definition ptr_add :: "addr \<Rightarrow> nat \<Rightarrow> addr" where
  "ptr_add p n = (fst p, snd p + n)"

definition ptr_less :: "addr \<Rightarrow> addr \<Rightarrow> bool" where
  "ptr_less p q = (fst p = fst q \<and> snd p < snd q)"

text \<open>
  The store maps an address to what the word there holds: a link word, the first word of a
  constructed work item (a page break or a work item of the client, of type \<open>'w\<close>),
  payload bytes copied in by a work item's constructor, or nothing meaningful. Reading a
  word as something it is not is the fault \<open>Invalid_access\<close>.

  A page records its identity, the offset of \<^verbatim>\<open>storage_end_\<close> and the number of words
  of the array that was newed. \<^verbatim>\<open>first_\<close>, \<^verbatim>\<open>last_\<close> and the pages' \<^verbatim>\<open>next_\<close> pointers
  are the list \<open>pages\<close>: \<^verbatim>\<open>first_\<close> is its head, \<^verbatim>\<open>last_\<close> its last element.
\<close>

datatype 'w item = Page_break | Work 'w

datatype 'w cell = Junk | Link "addr option" | Obj "'w item" | Payload

record page =
  pid :: nat
  storage_end :: nat
  storage_len :: nat

text \<open>
  What a work item may throw, by the two questions the handlers of \<^verbatim>\<open>drain\<close> ask of it:
  is it a \<^verbatim>\<open>boost::exception\<close>, is it a \<^verbatim>\<open>std::exception\<close>. The error policy is the
  three virtual callbacks of \<^verbatim>\<open>error_policy\<close>, acting on a state \<open>'d\<close> that stands for
  everything the client code can observe (the target streams included).
\<close>

datatype exception = Exception (is_boost_exception: bool) (is_std_exception: bool)

record 'd error_policy =
  catch_boost_exception :: "exception \<Rightarrow> 'd \<Rightarrow> 'd"
  catch_std_exception :: "exception \<Rightarrow> 'd \<Rightarrow> 'd"
  catch_unknown_exception :: "'d \<Rightarrow> 'd"

record ('w, 'd) allocator_impl =
  cursor :: addr
  prev_cursor :: "addr option"
  end_of_page :: addr
  pages :: "page list"
  ep :: "'d error_policy option"
  last_allocated :: "addr option"
  mem :: "addr \<Rightarrow> 'w cell"
  fresh :: nat

text \<open>
  \<^verbatim>\<open>new page(size)\<close>: a fresh identity, \<^verbatim>\<open>storage_end_\<close> at \<^verbatim>\<open>size / 8\<close> words, and the
  first word set to 0. \<^verbatim>\<open>delete\<close> of a page makes every word of it unreadable.
\<close>

definition new_page :: "nat \<Rightarrow> ('w, 'd) allocator_impl \<Rightarrow> page \<times> ('w, 'd) allocator_impl" where
  "new_page sz a =
     (let p = \<lparr>pid = fresh a, storage_end = sz div sizeof_size_t,
               storage_len = (sz + sizeof_size_t - 1) div sizeof_size_t + page_break_size_in_std_size_ts\<rparr>
      in (p, a\<lparr>fresh := fresh a + 1, mem := (mem a)((pid p, 0) := Link None)\<rparr>))"

definition storage_begin :: "page \<Rightarrow> addr" where
  "storage_begin p = (pid p, 0)"

definition delete_page :: "page \<Rightarrow> ('w, 'd) allocator_impl \<Rightarrow> ('w, 'd) allocator_impl" where
  "delete_page p a = a\<lparr>mem := (\<lambda>x. if fst x = pid p then Junk else mem a x)\<rparr>"

text \<open>
  \<^verbatim>\<open>clear_contents\<close> walks the chain from the first page and runs the destructor of every
  work item (which has no effect on the arena), then zeroes the first link. The walk is a
  loop over the store's contents, so it is a partial function: not returning is \<open>None\<close>.
  \<^verbatim>\<open>clear_extra_pages\<close> deletes \<^verbatim>\<open>first_\<close> and advances it until it meets \<^verbatim>\<open>last_\<close>.
\<close>

partial_function (option) clear_contents_loop :: "(addr \<Rightarrow> 'w cell) \<Rightarrow> addr \<Rightarrow> (fault + unit) option" where
  "clear_contents_loop m c =
     (case m c of
        Link None \<Rightarrow> Some (Inr ())
      | Link (Some n) \<Rightarrow> clear_contents_loop m n
      | _ \<Rightarrow> Some (Inl Invalid_access))"

declare clear_contents_loop.simps [code]

definition clear_contents :: "('w, 'd) allocator_impl \<Rightarrow> (fault + ('w, 'd) allocator_impl) option" where
  "clear_contents a =
     (case pages a of
        [] \<Rightarrow> Some (Inl Null_dereference)
      | first # _ \<Rightarrow>
          (case clear_contents_loop (mem a) (storage_begin first) of
             None \<Rightarrow> None
           | Some (Inl f) \<Rightarrow> Some (Inl f)
           | Some (Inr _) \<Rightarrow> Some (Inr (a\<lparr>mem := (mem a)(storage_begin first := Link None)\<rparr>))))"

fun clear_extra_pages_loop :: "('w, 'd) allocator_impl \<Rightarrow> page list \<Rightarrow> ('w, 'd) allocator_impl" where
  "clear_extra_pages_loop a (first # next # rest) =
     clear_extra_pages_loop (delete_page first a) (next # rest)"
| "clear_extra_pages_loop a ps = a\<lparr>pages := ps\<rparr>"

definition clear_extra_pages :: "('w, 'd) allocator_impl \<Rightarrow> fault + ('w, 'd) allocator_impl" where
  "clear_extra_pages a =
     (let a1 = clear_extra_pages_loop a (pages a)
      in case pages a1 of
           [] \<Rightarrow> Inl Null_dereference
         | first # _ \<Rightarrow>
             Inr (a1\<lparr>prev_cursor := None, cursor := storage_begin first,
                     end_of_page := ptr_add (storage_begin first) (storage_end first),
                     mem := (mem a1)(storage_begin first := Link None)\<rparr>))"

definition clear :: "('w, 'd) allocator_impl \<Rightarrow> (fault + ('w, 'd) allocator_impl) option" where
  "clear a =
     (case clear_contents a of
        None \<Rightarrow> None
      | Some (Inl f) \<Rightarrow> Some (Inl f)
      | Some (Inr a1) \<Rightarrow>
          (case clear_extra_pages a1 of
             Inl f \<Rightarrow> Some (Inl f)
           | Inr a2 \<Rightarrow> Some (Inr (a2\<lparr>last_allocated := None\<rparr>))))"

text \<open>
  \<^verbatim>\<open>allocate\<close> and \<^verbatim>\<open>add\<close>. \<open>store_link p v\<close> stores \<open>v\<close> into the link word that
  \<open>p\<close> points to, a fault when \<open>p\<close> is null. The argument of \<^verbatim>\<open>allocate\<close> is decremented before it
  is used (\<^verbatim>\<open>--size\<close>); \<open>sz\<close> is the decremented value.
\<close>

definition store_link :: "addr option \<Rightarrow> addr option \<Rightarrow> ('w, 'd) allocator_impl \<Rightarrow> fault + ('w, 'd) allocator_impl" where
  "store_link p v a =
     (case p of
        None \<Rightarrow> Inl Null_dereference
      | Some x \<Rightarrow> Inr (a\<lparr>mem := (mem a)(x := Link v)\<rparr>))"

definition allocate :: "nat \<Rightarrow> ('w, 'd) allocator_impl \<Rightarrow> fault + addr \<times> ('w, 'd) allocator_impl" where
  "allocate size_arg a =
     (if size_arg = 0 then Inl Assertion_failed
      else
        let sz = size_arg - 1;
            next = ptr_add (cursor a) (1 + (sz + sizeof_size_t - 1) div sizeof_size_t)
        in if ptr_less next (end_of_page a) then
             (let a1 = a\<lparr>last_allocated := Some (cursor a), cursor := next\<rparr>
              in case store_link (prev_cursor a1) (Some (cursor a1)) a1 of
                   Inl f \<Rightarrow> Inl f
                 | Inr a2 \<Rightarrow>
                    (case store_link (Some (cursor a2)) None a2 of
                       Inl f \<Rightarrow> Inl f
                     | Inr a3 \<Rightarrow> Inr (the (last_allocated a3), a3)))
           else
             (case pages a of
                [] \<Rightarrow> Inl Null_dereference
              | _ # _ \<Rightarrow>
                 (let newSize0 = 2 * (sizeof_size_t * storage_end (last (pages a)));
                      newSize = (if newSize0 < 2 * sz then 2 * sz else newSize0);
                      (next_page, a1) = new_page newSize a;
                      a2 = a1\<lparr>pages := pages a1 @ [next_page],
                              end_of_page := ptr_add (storage_begin next_page) (storage_end next_page)\<rparr>;
                      a3 = (if prev_cursor a2 = Some (cursor a2) then
                              a2\<lparr>mem := ((mem a2)(ptr_add (cursor a2) 1 := Obj Page_break))
                                          (cursor a2 := Link (Some (storage_begin next_page))),
                                  prev_cursor := Some (storage_begin next_page)\<rparr>
                            else a2);
                      a4 = a3\<lparr>cursor := storage_begin next_page\<rparr>;
                      a5 = a4\<lparr>last_allocated := Some (cursor a4)\<rparr>;
                      a6 = a5\<lparr>cursor := ptr_add (cursor a5) (1 + (sz + sizeof_size_t - 1) div sizeof_size_t)\<rparr>
                  in case store_link (prev_cursor a6) (Some (cursor a6)) a6 of
                       Inl f \<Rightarrow> Inl f
                     | Inr a7 \<Rightarrow>
                        (case store_link (Some (cursor a7)) None a7 of
                           Inl f \<Rightarrow> Inl f
                         | Inr a8 \<Rightarrow> Inr (the (last_allocated a8), a8)))))"

definition add :: "nat \<Rightarrow> ('w, 'd) allocator_impl \<Rightarrow> fault + addr \<times> ('w, 'd) allocator_impl" where
  "add sz a =
     (case allocate (sz + sizeof_size_t) (a\<lparr>prev_cursor := Some (cursor a)\<rparr>) of
        Inl f \<Rightarrow> Inl f
      | Inr (allocated, a1) \<Rightarrow> Inr (ptr_add allocated 1, a1))"

text \<open>
  The constructor: one page of \<^verbatim>\<open>4096 - sizeof(std::size_t) * page_break_size_in_std_size_ts\<close>
  bytes, then \<^verbatim>\<open>clear()\<close>. The cursors are not initialised before \<^verbatim>\<open>clear\<close> sets them.
\<close>

definition new_allocator_impl :: "'d error_policy option \<Rightarrow> (addr \<Rightarrow> 'w cell) \<Rightarrow> (fault + ('w, 'd) allocator_impl) option" where
  "new_allocator_impl e m0 =
     (let a0 = \<lparr>cursor = (0, 0), prev_cursor = None, end_of_page = (0, 0), pages = [], ep = e,
                last_allocated = None, mem = m0, fresh = 0\<rparr>;
          (p, a1) = new_page (4096 - sizeof_size_t * page_break_size_in_std_size_ts) a0
      in clear (a1\<lparr>pages := [p]\<rparr>))"

subsection \<open>drain\<close>

text \<open>
  The client's work items are given by two functions: the base class a work item derives
  from (what the two \<^verbatim>\<open>dynamic_cast\<close>s of \<^verbatim>\<open>drain\<close> ask) and its \<^verbatim>\<open>apply\<close>, which returns
  the new state and the exception it threw, if any. \<open>ostr\<close> and \<open>istr\<close> say whether the
  pointers \<^verbatim>\<open>o\<close> and \<^verbatim>\<open>i\<close> are non-null. \<open>report\<close> is the three \<^verbatim>\<open>catch\<close> clauses in their
  order; \<open>drain_worklet\<close> is the body of the loop.
\<close>

datatype dyn_type = Formatter_base | Parser_base | Other

record ('w, 'd) worklets =
  dyn_type_of :: "'w \<Rightarrow> dyn_type"
  apply_of :: "'w \<Rightarrow> 'd \<Rightarrow> exception option \<times> 'd"

fun apply_item :: "('w, 'd) worklets \<Rightarrow> 'w item \<Rightarrow> 'd \<Rightarrow> exception option \<times> 'd" where
  "apply_item V Page_break d = (None, d)"
| "apply_item V (Work w) d = apply_of V w d"

fun is_a :: "('w, 'd) worklets \<Rightarrow> dyn_type \<Rightarrow> 'w item \<Rightarrow> bool" where
  "is_a V t Page_break = False"
| "is_a V t (Work w) = (dyn_type_of V w = t)"

definition report :: "'d error_policy option \<Rightarrow> exception \<Rightarrow> 'd \<Rightarrow> 'd" where
  "report e x d =
     (if is_boost_exception x then
        (case e of None \<Rightarrow> d | Some h \<Rightarrow> catch_boost_exception h x d)
      else if is_std_exception x then
        (case e of None \<Rightarrow> d | Some h \<Rightarrow> catch_std_exception h x d)
      else
        (case e of None \<Rightarrow> d | Some h \<Rightarrow> catch_unknown_exception h d))"

definition drain_worklet ::
  "('w, 'd) worklets \<Rightarrow> 'd error_policy option \<Rightarrow> bool \<Rightarrow> bool \<Rightarrow> 'w item \<Rightarrow> 'd \<Rightarrow> fault + 'd" where
  "drain_worklet V e ostr istr worklet d =
     (if \<not> (\<not> is_a V Formatter_base worklet \<or> ostr) then Inl Assertion_failed
      else if \<not> (\<not> is_a V Parser_base worklet \<or> istr) then Inl Assertion_failed
      else case apply_item V worklet d of
             (None, d1) \<Rightarrow> Inr d1
           | (Some x, d1) \<Rightarrow> Inr (report e x d1))"

partial_function (option) drain_loop ::
  "('w, 'd) worklets \<Rightarrow> 'd error_policy option \<Rightarrow> bool \<Rightarrow> bool \<Rightarrow> (addr \<Rightarrow> 'w cell) \<Rightarrow> addr \<Rightarrow> 'd \<Rightarrow> (fault + 'd) option" where
  "drain_loop V e ostr istr m c d =
     (case m c of
        Link None \<Rightarrow> Some (Inr d)
      | Link (Some n) \<Rightarrow>
         (case m (ptr_add c 1) of
            Obj worklet \<Rightarrow>
              (case drain_worklet V e ostr istr worklet d of
                 Inl f \<Rightarrow> Some (Inl f)
               | Inr d1 \<Rightarrow> drain_loop V e ostr istr m n d1)
          | _ \<Rightarrow> Some (Inl Invalid_access))
      | _ \<Rightarrow> Some (Inl Invalid_access))"

declare drain_loop.simps [code]

definition drain ::
  "('w, 'd) worklets \<Rightarrow> bool \<Rightarrow> bool \<Rightarrow> ('w, 'd) allocator_impl \<Rightarrow> 'd \<Rightarrow> (fault + 'd) option" where
  "drain V ostr istr a d =
     (case pages a of
        [] \<Rightarrow> Some (Inl Null_dereference)
      | first # _ \<Rightarrow> drain_loop V (ep a) ostr istr (mem a) (storage_begin first) d)"

subsection \<open>Placing a work item\<close>

text \<open>
  What \<^verbatim>\<open>stream::operator<<\<close> does with the arena of the page it inserts into:
  \<^verbatim>\<open>add(sizeof(formatter<T>))\<close>, then the placement new of the formatter, whose constructor
  may call \<^verbatim>\<open>allocate\<close> for each payload it copies (as the formatters of \<^verbatim>\<open>const char*\<close> and
  \<^verbatim>\<open>async_write_some_work\<close> do) before the object is complete. \<open>payloads\<close> lists the sizes
  of these allocations.
\<close>

definition memcpy :: "addr \<Rightarrow> nat \<Rightarrow> ('w, 'd) allocator_impl \<Rightarrow> ('w, 'd) allocator_impl" where
  "memcpy dst n a =
     a\<lparr>mem := (\<lambda>x. if fst x = fst dst \<and> snd dst \<le> snd x
                         \<and> snd x < snd dst + (n + sizeof_size_t - 1) div sizeof_size_t
                      then Payload else mem a x)\<rparr>"

fun copy_payloads :: "nat list \<Rightarrow> ('w, 'd) allocator_impl \<Rightarrow> fault + ('w, 'd) allocator_impl" where
  "copy_payloads [] a = Inr a"
| "copy_payloads (n # ns) a =
     (case allocate n a of
        Inl f \<Rightarrow> Inl f
      | Inr (copy, a1) \<Rightarrow> copy_payloads ns (memcpy copy n a1))"

definition place :: "'w \<Rightarrow> nat \<Rightarrow> nat list \<Rightarrow> ('w, 'd) allocator_impl \<Rightarrow> fault + ('w, 'd) allocator_impl" where
  "place w sizeof_w payloads a =
     (case add sizeof_w a of
        Inl f \<Rightarrow> Inl f
      | Inr (location, a1) \<Rightarrow>
         (case copy_payloads payloads a1 of
            Inl f \<Rightarrow> Inl f
          | Inr a2 \<Rightarrow> Inr (a2\<lparr>mem := (mem a2)(location := Obj (Work w))\<rparr>)))"

fun place_all :: "('w \<times> nat \<times> nat list) list \<Rightarrow> ('w, 'd) allocator_impl \<Rightarrow> fault + ('w, 'd) allocator_impl" where
  "place_all [] a = Inr a"
| "place_all ((w, n, ks) # r) a =
     (case place w n ks a of
        Inl f \<Rightarrow> Inl f
      | Inr a1 \<Rightarrow> place_all r a1)"

subsection \<open>Well-formed arenas\<close>

text \<open>
  The notions below are not in the source; the properties are stated with them.
  \<open>chain m p r q\<close>: following the links of store \<open>m\<close> from \<open>p\<close> visits exactly the records
  \<open>r\<close> (address and work item) and arrives at \<open>q\<close>. \<open>arena_inv a r\<close>: the arena \<open>a\<close> is
  between two insertions and holds the records \<open>r\<close>; \<open>open_inv a r pc\<close>: a record at \<open>pc\<close> is
  in progress after \<open>r\<close>. \<open>works r\<close> are the client's work items among \<open>r\<close>, and \<open>apply_all\<close>
  applies a list of items in order as \<^verbatim>\<open>drain\<close> would.
\<close>

definition words :: "nat \<Rightarrow> nat" where
  "words k = 1 + (k - 1 + sizeof_size_t - 1) div sizeof_size_t"

definition grown_page :: "nat \<Rightarrow> ('w, 'd) allocator_impl \<Rightarrow> page" where
  "grown_page k a =
     (let newSize = max (2 * (sizeof_size_t * storage_end (last (pages a)))) (2 * (k - 1))
      in \<lparr>pid = fresh a, storage_end = newSize div sizeof_size_t,
          storage_len = (newSize + sizeof_size_t - 1) div sizeof_size_t + page_break_size_in_std_size_ts\<rparr>)"

fun chain :: "(addr \<Rightarrow> 'w cell) \<Rightarrow> addr \<Rightarrow> (addr \<times> 'w item) list \<Rightarrow> addr \<Rightarrow> bool" where
  "chain m p [] q = (p = q)"
| "chain m p (x # r) q =
     (p = fst x \<and> m (ptr_add p 1) = Obj (snd x)
      \<and> (case m p of Link (Some n) \<Rightarrow> chain m n r q | _ \<Rightarrow> False))"

definition below :: "addr \<Rightarrow> addr \<Rightarrow> bool" where
  "below x c = (fst x \<noteq> fst c \<or> snd x + 2 \<le> snd c)"

definition base_inv :: "('w, 'd) allocator_impl \<Rightarrow> bool" where
  "base_inv a = (pages a \<noteq> [] \<and> distinct (map pid (pages a))
     \<and> list_all (\<lambda>p. pid p < fresh a) (pages a)
     \<and> fst (cursor a) = pid (last (pages a))
     \<and> end_of_page a = (pid (last (pages a)), storage_end (last (pages a)))
     \<and> snd (cursor a) < storage_end (last (pages a))
     \<and> 511 \<le> storage_end (last (pages a))
     \<and> mem a (cursor a) = Link None)"

definition arena_inv :: "('w, 'd) allocator_impl \<Rightarrow> (addr \<times> 'w item) list \<Rightarrow> bool" where
  "arena_inv a r = (base_inv a
     \<and> chain (mem a) (storage_begin (hd (pages a))) r (cursor a)
     \<and> list_all (\<lambda>x. fst (fst x) < fresh a \<and> below (fst x) (cursor a)) r)"

definition open_inv :: "('w, 'd) allocator_impl \<Rightarrow> (addr \<times> 'w item) list \<Rightarrow> addr \<Rightarrow> bool" where
  "open_inv a r pc = (base_inv a
     \<and> chain (mem a) (storage_begin (hd (pages a))) r pc
     \<and> prev_cursor a = Some pc \<and> mem a pc = Link (Some (cursor a))
     \<and> fst pc < fresh a \<and> below pc (cursor a)
     \<and> list_all (\<lambda>x. fst (fst x) < fresh a \<and> below (fst x) (cursor a) \<and> below (fst x) pc) r)"

definition frame :: "nat \<Rightarrow> addr \<Rightarrow> (addr \<Rightarrow> 'w cell) \<Rightarrow> (addr \<Rightarrow> 'w cell) \<Rightarrow> bool" where
  "frame F c m m' = (\<forall>y. fst y < F \<longrightarrow> (fst y \<noteq> fst c \<or> snd y < snd c) \<longrightarrow> m' y = m y)"

fun works :: "(addr \<times> 'w item) list \<Rightarrow> 'w list" where
  "works [] = []"
| "works ((a, Page_break) # r) = works r"
| "works ((a, Work w) # r) = w # works r"

fun apply_all ::
  "('w, 'd) worklets \<Rightarrow> 'd error_policy option \<Rightarrow> bool \<Rightarrow> bool \<Rightarrow> 'w item list \<Rightarrow> 'd \<Rightarrow> fault + 'd" where
  "apply_all V e ostr istr [] d = Inr d"
| "apply_all V e ostr istr (w # ws) d =
     (case drain_worklet V e ostr istr w d of
        Inl f \<Rightarrow> Inl f
      | Inr d1 \<Rightarrow> apply_all V e ostr istr ws d1)"

definition capacity :: "page \<Rightarrow> nat" where
  "capacity p = sizeof_size_t * storage_end p"

subsection \<open>Example arenas\<close>

text \<open>
  Work items that append their name to a log, except \<open>''boom''\<close>, which throws a
  \<^verbatim>\<open>std::exception\<close>; an error policy that logs which callback was called; the arena after
  construction, and arenas with one and two items.
\<close>

definition ex_worklets :: "(string, string list) worklets" where
  "ex_worklets = \<lparr>dyn_type_of = (\<lambda>w. Formatter_base),
     apply_of = (\<lambda>w d. if w = ''boom'' then (Some (Exception False True), d) else (None, d @ [w]))\<rparr>"

definition ex_policy :: "string list error_policy" where
  "ex_policy = \<lparr>catch_boost_exception = (\<lambda>x d. d @ [''<domain>'']),
     catch_std_exception = (\<lambda>x d. d @ [''<generic>'']),
     catch_unknown_exception = (\<lambda>d. d @ [''<unknown>''])\<rparr>"

definition page0 :: page where
  "page0 = \<lparr>pid = 0, storage_end = 511, storage_len = 512\<rparr>"

definition page1 :: page where
  "page1 = \<lparr>pid = 1, storage_end = 1022, storage_len = 1023\<rparr>"

definition ex_fresh :: "(string, string list) allocator_impl" where
  "ex_fresh = \<lparr>cursor = (0, 0), prev_cursor = None, end_of_page = (0, 511), pages = [page0],
     ep = Some ex_policy, last_allocated = None, mem = (\<lambda>x. Junk)((0, 0) := Link None), fresh = 1\<rparr>"

definition ex_two_items :: "(string, string list) allocator_impl" where
  "ex_two_items = \<lparr>cursor = (0, 8), prev_cursor = Some (0, 4), end_of_page = (0, 511),
     pages = [page0], ep = Some ex_policy, last_allocated = Some (0, 4),
     mem = (\<lambda>x. Junk)((0, 0) := Link (Some (0, 4)), (0, 1) := Obj (Work ''boom''),
                       (0, 4) := Link (Some (0, 8)), (0, 5) := Obj (Work ''ok''),
                       (0, 8) := Link None),
     fresh = 1\<rparr>"

definition ex_in_record :: "(string, string list) allocator_impl" where
  "ex_in_record = \<lparr>cursor = (0, 4), prev_cursor = Some (0, 0), end_of_page = (0, 511),
     pages = [page0], ep = Some ex_policy, last_allocated = Some (0, 0),
     mem = (\<lambda>x. Junk)((0, 0) := Link (Some (0, 4)), (0, 4) := Link None),
     fresh = 1\<rparr>"

definition ex_one_item :: "(string, string list) allocator_impl" where
  "ex_one_item = \<lparr>cursor = (0, 502), prev_cursor = Some (0, 0), end_of_page = (0, 511),
     pages = [page0], ep = Some ex_policy, last_allocated = Some (0, 0),
     mem = (\<lambda>x. Junk)((0, 0) := Link (Some (0, 502)), (0, 1) := Obj (Work ''a''),
                       (0, 502) := Link None),
     fresh = 1\<rparr>"

definition ex_two_pages :: "(string, string list) allocator_impl" where
  "ex_two_pages = \<lparr>cursor = (1, 15), prev_cursor = Some (1, 0), end_of_page = (1, 1022),
     pages = [page0, page1], ep = Some ex_policy, last_allocated = Some (1, 0),
     mem = (\<lambda>x. Junk)((0, 0) := Link (Some (0, 502)), (0, 1) := Obj (Work ''a''),
                       (0, 502) := Link (Some (1, 0)), (0, 503) := Obj Page_break,
                       (1, 0) := Link (Some (1, 15)), (1, 1) := Obj (Work ''b''),
                       (1, 15) := Link None),
     fresh = 2\<rparr>"

definition ex_submissions :: "(string \<times> nat \<times> nat list) list" where
  "ex_submissions = [(''a'', 16, []), (''b'', 16, [5000]), (''c'', 4000, [])]"

text \<open>
  The same arenas for a service without an error policy, which is what the constructors of
  \<^verbatim>\<open>service\<close> and of the streams over a \<^verbatim>\<open>boost::asio::io_service\<close> install by default.
\<close>

definition ex_fresh_no_policy :: "(string, string list) allocator_impl" where
  "ex_fresh_no_policy = ex_fresh\<lparr>ep := None\<rparr>"

definition ex_no_policy :: "(string, string list) allocator_impl" where
  "ex_no_policy = ex_two_items\<lparr>ep := None\<rparr>"

section \<open>async_ostream.cpp: service and stream\<close>




text \<open>
  A service is its \<^verbatim>\<open>service::impl\<close> and, if it is one of the wrappers of a
  \<^verbatim>\<open>boost::asio::io_service\<close>, the fields of \<^verbatim>\<open>asio_service_wrapper\<close> and the scheduling
  policy that tells the three wrapper classes apart.

  The \<^verbatim>\<open>io_service\<close> itself belongs to the client and to Boost. What the destructor of a
  wrapper needs of it is a parameter of the model: some thread runs the handlers that are
  posted to it, or it has been stopped (\<^verbatim>\<open>s_.stopped()\<close>), or neither. The destructor
  posts a handler and spins until the handler has set its flag or the \<^verbatim>\<open>io_service\<close> is
  stopped: \<open>post_and_wait\<close>. If handlers are run, the posted one is run, in the order of
  posting; if the \<^verbatim>\<open>io_service\<close> is stopped, the loop is left with the flag as it was; if
  neither, the loop is left only if the flag was set before, else the destructor does not
  return. The handlers of the wrapper that may still be queued drain the streams of the
  service, of which there is none when the stream that owns the service is destroyed.

  \<^verbatim>\<open>delete service_\<close> runs the destructor of the dynamic type (for the polling wrapper,
  which posts \<^verbatim>\<open>set_stopped\<close>, waits, and cancels its timer), then that of
  \<^verbatim>\<open>asio_service_wrapper\<close>, then that of \<^verbatim>\<open>service\<close>, which frees the \<^verbatim>\<open>service::impl\<close>.
\<close>

datatype policy_type = Low_enqueue_latency_by_polling | Low_overall_latency_by_spinning | Low_power










text \<open>
  \<^verbatim>\<open>stream::impl\<close>. \<open>ostream\<close> and \<open>istream\<close> say whether the targets \<^verbatim>\<open>ostream_\<close> and
  \<^verbatim>\<open>istream_\<close> are non-null; the state of the targets is part of the client state \<open>'d\<close>.
  The members \<^verbatim>\<open>page1_\<close> and \<^verbatim>\<open>page2_\<close> are the buffers \<open>Buffer1\<close> and \<open>Buffer2\<close> of the
  queue \<^verbatim>\<open>buffer_\<close>, here \<open>stream_buffer\<close>. The service a stream belongs to is passed to the
  functions that use it. What the client supplies is collected in an environment: its work
  items and what \<^verbatim>\<open>std::ostream::flush\<close> does to the target.
\<close>

record ('w, 'd) stream_impl =
  owner :: bool
  ostream :: bool
  istream :: bool
  stream_buffer :: "('w, 'd) allocator_impl tpd"

record ('w, 'd) environment =
  worklets_of :: "('w, 'd) worklets"
  ostream_flush :: "'d \<Rightarrow> 'd"

definition flush :: "('w, 'd) environment \<Rightarrow> ('w, 'd) stream_impl \<Rightarrow> 'd \<Rightarrow> 'd" where
  "flush E s d = (if ostream s then ostream_flush E d else d)"

text \<open>
  \<^verbatim>\<open>stream::impl::try_drain\<close>, run by thread \<open>t\<close>. Each iteration declares a consume
  transaction, whose destructor commits it at the end of the iteration, also when the loop
  is left by \<^verbatim>\<open>break\<close>. The result of \<^verbatim>\<open>try_consume\<close> converts to \<^verbatim>\<open>true\<close> when its
  \<open>consumed\<close> bit is set.
\<close>

partial_function (option) try_drain_loop ::
  "('w, 'd) environment \<Rightarrow> tid \<Rightarrow> bool \<Rightarrow> ('w, 'd) stream_impl \<Rightarrow> 'd
     \<Rightarrow> (fault + bool \<times> ('w, 'd) stream_impl \<times> 'd) option" where
  "try_drain_loop E t result s d =
     (case try_consume t new_transaction (stream_buffer s) of
        Inl f \<Rightarrow> Some (Inl f)
      | Inr (r, x, q) \<Rightarrow>
          if \<not> consumed r then
            (case consume_commit t x q of
               Inl f \<Rightarrow> Some (Inl f)
             | Inr (x1, q1) \<Rightarrow> Some (Inr (result, s\<lparr>stream_buffer := q1\<rparr>, d)))
          else
            (case buffer x of
               None \<Rightarrow> Some (Inl Null_dereference)
             | Some p \<Rightarrow>
                (case drain (worklets_of E) (ostream s) (istream s) (impl (page q p)) d of
                   None \<Rightarrow> None
                 | Some (Inl f) \<Rightarrow> Some (Inl f)
                 | Some (Inr d1) \<Rightarrow>
                    (case consume_commit t x q of
                       Inl f \<Rightarrow> Some (Inl f)
                     | Inr (x1, q1) \<Rightarrow> try_drain_loop E t True (s\<lparr>stream_buffer := q1\<rparr>) d1))))"

declare try_drain_loop.simps [code]

definition try_drain ::
  "('w, 'd) environment \<Rightarrow> tid \<Rightarrow> ('w, 'd) stream_impl \<Rightarrow> 'd
     \<Rightarrow> (fault + bool \<times> ('w, 'd) stream_impl \<times> 'd) option" where
  "try_drain E t s d = try_drain_loop E t False s d"

text \<open>
  The destructor \<^verbatim>\<open>stream::~stream\<close> is followed by a history variable, the list of the
  steps it has taken, in their order: the stream removed from the list of its service, each
  call of \<^verbatim>\<open>try_drain\<close> with its result, each call of \<^verbatim>\<open>flush\<close>, the service deleted,
  the allocator of a page destroyed.
\<close>

datatype event = Remove_stream nat | Try_drain bool | Flush | Delete_service | Delete_allocator page_ref

text \<open>
  The loop of \<^verbatim>\<open>stream::~stream\<close>: while the queue is not empty, drain, and flush when
  something was drained. Nothing bounds the number of iterations in the source, so the loop
  is a partial function and its termination is a property to prove.
\<close>

partial_function (option) drain_until_empty ::
  "('w, 'd) environment \<Rightarrow> tid \<Rightarrow> ('w, 'd) stream_impl \<Rightarrow> 'd \<Rightarrow> event list
     \<Rightarrow> (fault + ('w, 'd) stream_impl \<times> 'd \<times> event list) option" where
  "drain_until_empty E t s d tr =
     (case empty_tpd (stream_buffer s) of
        Inl f \<Rightarrow> Some (Inl f)
      | Inr e \<Rightarrow>
         if e then Some (Inr (s, d, tr))
         else
           (case try_drain E t s d of
              None \<Rightarrow> None
            | Some (Inl f) \<Rightarrow> Some (Inl f)
            | Some (Inr (result, s1, d1)) \<Rightarrow>
                if result then drain_until_empty E t s1 (flush E s1 d1) (tr @ [Try_drain True, Flush])
                else drain_until_empty E t s1 d1 (tr @ [Try_drain False])))"

declare drain_until_empty.simps [code]












subsection \<open>Quiescent streams\<close>




subsection \<open>An example stream environment\<close>




section \<open>Properties of the two-page disruptor\<close>

subsection \<open>Results of try_consume\<close>

lemma outcome_bits:
  "consumed cr_success" "queue_not_empty cr_success"
  "\<not> consumed cr_no_more_work" "\<not> consumed cr_queue_not_empty" "\<not> consumed cr_too_many_consumers"
  by (simp_all add: consumed_def queue_not_empty_def cr_success_def cr_consumed_def
      cr_queue_not_empty_def cr_no_more_work_def cr_too_many_consumers_def cr_consumer_congestion_def)

lemma try_consume_acquire_outcome:
  "try_consume_acquire t x s = Inr (r, x', s') \<Longrightarrow> r = cr_too_many_consumers \<or> r = cr_success"
  by (auto simp: try_consume_acquire_def Let_def split: prod.splits if_splits sum.splits option.splits)

lemma try_consume_outcome:
  "try_consume t x s = Inr (r, x', s') \<Longrightarrow>
     r = cr_no_more_work \<or> r = cr_queue_not_empty \<or> r = cr_too_many_consumers \<or> r = cr_success"
  by (auto simp: try_consume_def Let_def dest: try_consume_acquire_outcome
      split: prod.splits if_splits sum.splits option.splits)

text \<open>
  C9. Every result that \<^verbatim>\<open>try_consume\<close> returns with the consumed bit set is
  \<^verbatim>\<open>cr_success\<close>, and so has the queue_not_empty bit set as well.
\<close>

theorem try_consume_consumed_implies_queue_not_empty:
  "try_consume t x s = Inr (r, x', s') \<Longrightarrow> consumed r \<Longrightarrow> r = cr_success \<and> queue_not_empty r"
  using try_consume_outcome[of t x s r x' s'] outcome_bits by auto

subsection \<open>The short run\<close>

lemma blank_upd [simp]: "blank(p := \<lparr>sequence_number = 0, impl = ()\<rparr>) = blank"
  by (auto simp: blank_def)

lemma blank_app [simp]: "blank p = \<lparr>sequence_number = 0, impl = ()\<rparr>"
  by (simp add: blank_def)

lemma init_example: "init Buffer1 Buffer2 tpd_constructed = Inr tpd_ready"
  by (simp add: init_def initialized_def tpd_constructed_def tpd_ready_def Let_def set_sequence_number_def)

lemma begin_insert_example:
  "begin_insert no_clear 0 new_transaction tpd_ready = Some (Inr (True, \<lparr>buffer = Some Buffer1, parent = True\<rparr>, tpd_inserting))"
  by (simp add: begin_insert_def initialized_def tpd_ready_def tpd_inserting_def Let_def new_transaction_def
     transaction_init_def set_sequence_number_def get_sequence_number_def clear_page_def no_clear_def eval_nat_numeral)

lemma insert_commit_example:
  "insert_commit 0 \<lparr>buffer = Some Buffer1, parent = True\<rparr> tpd_inserting = Inr (new_transaction, tpd_one_pending)"
  by (simp add: insert_commit_def tpd_one_pending_def tpd_inserting_def Let_def new_transaction_def unlock_def)

lemma try_consume_example:
  "try_consume 1 new_transaction tpd_one_pending = Inr (cr_success, \<lparr>buffer = Some Buffer1, parent = True\<rparr>, tpd_consuming)"
  by (simp add: try_consume_def try_consume_acquire_def tpd_one_pending_def tpd_inserting_def tpd_consuming_def
     initialized_def Let_def new_transaction_def unlock_def try_lock_def switch_pages_def get_sequence_number_def
     transaction_init_def)


lemma run_ready: "run no_clear 0 tpd_ready"
  by (rule run_init[OF _ _ init_example]) (simp_all add: constructed_def tpd_constructed_def)

lemma run_inserting: "run no_clear 1 tpd_inserting"
  using run_begin_insert[OF run_ready begin_insert_example] by simp

lemma run_one_pending: "run no_clear 1 tpd_one_pending"
  by (rule run_insert_commit[OF run_inserting _ _ insert_commit_example])
     (simp_all add: tpd_inserting_def)

lemma run_reachable: "run clr n s \<Longrightarrow> reachable clr s"
  by (induction rule: run.induct) (auto intro: reachable.intros tpd_op.intros)

lemma reachable_ready: "reachable no_clear tpd_ready"
  by (rule run_reachable[OF run_ready])

lemma reachable_inserting: "reachable no_clear tpd_inserting"
  by (rule run_reachable[OF run_inserting])

lemma reachable_one_pending: "reachable no_clear tpd_one_pending"
  by (rule run_reachable[OF run_one_pending])

theorem try_consume_witness:
  "try_consume 1 new_transaction tpd_one_pending = Inr (cr_success, \<lparr>buffer = Some Buffer1, parent = True\<rparr>, tpd_consuming)
   \<and> consumed cr_success \<and> queue_not_empty cr_success"
  using try_consume_consumed_implies_queue_not_empty[OF try_consume_example] try_consume_example outcome_bits(1)
  by blast

subsection \<open>Sequence numbers\<close>



text \<open>what switch_pages does when the inserter page carries the newest sequence number\<close>
lemma switch_pages_Inr:
  assumes "inserter s = Some i" "consumer s = Some c"
    and "get_sequence_number i s > last_enqueued_sequence_number s"
  shows "switch_pages t s = Inr (s\<lparr>inserter := Some c, consumer := Some i,
           swap_log := swap_log s @ [(t, inserting s, consuming s)],
           last_enqueued_sequence_number := get_sequence_number i s\<rparr>)"
  using assms by (simp add: switch_pages_def Let_def get_sequence_number_def)




lemma try_consume_acquire_inv:
  assumes "tpd_inv s" "last_enqueued_sequence_number s > last_consumed_sequence_number s"
     "try_consume_acquire t x s = Inr (r, x', s')"
  shows "tpd_inv s' \<and> sn_monotone s s'"
  using assms
  by (auto simp: try_consume_acquire_def tpd_inv_def sn_monotone_def Let_def unlock_def try_lock_def
      transaction_init_def get_sequence_number_def
      split: if_splits option.splits sum.splits prod.splits)













subsection \<open>The generator wraps around\<close>












subsection \<open>Commits\<close>

text \<open>
  A commit of a transaction that is not bound to a queue does nothing; a commit of a bound
  one returns the unbound transaction; and in the states of a run the operations raise no
  fault.
\<close>

lemma insert_commit_unbound: "\<not> parent x \<Longrightarrow> insert_commit t x s = Inr (new_transaction, s)"
  by (simp add: insert_commit_def new_transaction_def)

lemma consume_commit_unbound: "\<not> parent x \<Longrightarrow> consume_commit t x s = Inr (new_transaction, s)"
  by (simp add: consume_commit_def new_transaction_def)

lemma insert_commit_result:
  "insert_commit t x s = Inr (x1, s1) \<Longrightarrow> x1 = new_transaction \<and> (parent x \<longrightarrow> inserting s1 = None)"
  by (auto simp: insert_commit_def new_transaction_def unlock_def Let_def
      split: if_splits sum.splits prod.splits)

lemma consume_commit_result:
  "consume_commit t x s = Inr (x1, s1) \<Longrightarrow> x1 = new_transaction \<and> (parent x \<longrightarrow> consuming s1 = None)"
  by (auto simp: consume_commit_def new_transaction_def unlock_def Let_def
      split: if_splits sum.splits prod.splits)


lemma consume_commit_no_fault:
  assumes "tpd_inv s"
  shows "\<exists>s'. consume_commit t x s = Inr (new_transaction, s')"
  using assms
  by (auto simp: consume_commit_def tpd_inv_def new_transaction_def Let_def unlock_def try_lock_def
      switch_pages_def get_sequence_number_def
      split: if_splits option.splits sum.splits prod.splits)

lemma try_consume_no_fault:
  assumes "tpd_inv s"
  shows "\<exists>r x' s'. try_consume t new_transaction s = Inr (r, x', s')"
  using assms
  by (auto simp: try_consume_def try_consume_acquire_def tpd_inv_def new_transaction_def Let_def unlock_def try_lock_def
      switch_pages_def get_sequence_number_def transaction_init_def initialized_def
      split: if_splits option.splits sum.splits prod.splits)

lemma begin_insert_no_fault:
  assumes "tpd_inv s" "inserting s = None" "\<And>p. \<exists>c. clr (impl (page s p)) = Some (Inr c)"
  shows "\<exists>r x' s'. begin_insert clr t new_transaction s = Some (Inr (r, x', s'))"
proof -
  from assms(1) obtain i c where ic: "inserter s = Some i" "consumer s = Some c"
    by (auto simp: tpd_inv_def)
  from assms(3)[of i] obtain k where k: "clr (impl (page s i)) = Some (Inr k)" by auto
  show ?thesis
    using ic k assms(2)
    by (auto simp: begin_insert_def new_transaction_def Let_def clear_page_def
        get_sequence_number_def transaction_init_def initialized_def)
qed

text \<open>
  C10. A commit of an insert transaction that returns leaves the transaction with null
  buffer and parent pointers (it is \<open>new_transaction\<close>) and, if the transaction was bound,
  the inserting lock released; any later commit of that transaction, by any thread and in
  any state of the queue, returns the same transaction and the same state, so it releases
  nothing. The same holds of a consume transaction and the consuming lock.
\<close>

theorem commit_idempotent:
  "(insert_commit t x s = Inr (x1, s1) \<longrightarrow>
      x1 = new_transaction \<and> (parent x \<longrightarrow> inserting s1 = None)
      \<and> (\<forall>t' s2. insert_commit t' x1 s2 = Inr (x1, s2)))
   \<and> (consume_commit u y r = Inr (y1, r1) \<longrightarrow>
      y1 = new_transaction \<and> (parent y \<longrightarrow> consuming r1 = None)
      \<and> (\<forall>t' r2. consume_commit t' y1 r2 = Inr (y1, r2)))"
proof (intro conjI impI)
  assume a: "insert_commit t x s = Inr (x1, s1)"
  from insert_commit_result[OF a] show "x1 = new_transaction" by simp
  then show "\<forall>t' s2. insert_commit t' x1 s2 = Inr (x1, s2)"
    by (simp add: insert_commit_unbound new_transaction_def)
  show "inserting s1 = None" if "parent x" using insert_commit_result[OF a] that by simp
next
  assume a: "consume_commit u y r = Inr (y1, r1)"
  from consume_commit_result[OF a] show "y1 = new_transaction" by simp
  then show "\<forall>t' r2. consume_commit t' y1 r2 = Inr (y1, r2)"
    by (simp add: consume_commit_unbound new_transaction_def)
  show "consuming r1 = None" if "parent y" using consume_commit_result[OF a] that by simp
qed

lemma consume_commit_example:
  "consume_commit 1 \<lparr>buffer = Some Buffer1, parent = True\<rparr> tpd_consuming = Inr (new_transaction, tpd_consumed)"
  by (simp add: consume_commit_def tpd_consumed_def tpd_consuming_def Let_def new_transaction_def unlock_def try_lock_def)

theorem commit_idempotent_witness:
  "insert_commit 0 \<lparr>buffer = Some Buffer1, parent = True\<rparr> tpd_inserting = Inr (new_transaction, tpd_one_pending)
   \<and> inserting tpd_inserting = Some 0 \<and> inserting tpd_one_pending = None
   \<and> insert_commit 0 new_transaction tpd_one_pending = Inr (new_transaction, tpd_one_pending)
   \<and> consume_commit 1 \<lparr>buffer = Some Buffer1, parent = True\<rparr> tpd_consuming = Inr (new_transaction, tpd_consumed)
   \<and> consuming tpd_consuming = Some 1 \<and> consuming tpd_consumed = None
   \<and> consume_commit 1 new_transaction tpd_consumed = Inr (new_transaction, tpd_consumed)"
proof -
  note h = commit_idempotent[of 0 "\<lparr>buffer = Some Buffer1, parent = True\<rparr>" tpd_inserting
      new_transaction tpd_one_pending 1 "\<lparr>buffer = Some Buffer1, parent = True\<rparr>" tpd_consuming
      new_transaction tpd_consumed]
  have a: "inserting tpd_one_pending = None"
    using h insert_commit_example by auto
  have b: "insert_commit 0 new_transaction tpd_one_pending = Inr (new_transaction, tpd_one_pending)"
    using h insert_commit_example by auto
  have c: "consuming tpd_consumed = None"
    using h consume_commit_example by auto
  have d: "consume_commit 1 new_transaction tpd_consumed = Inr (new_transaction, tpd_consumed)"
    using h consume_commit_example by auto
  have e: "inserting tpd_inserting = Some 0" "consuming tpd_consuming = Some 1"
    by (simp_all add: tpd_inserting_def tpd_consuming_def)
  show ?thesis using a b c d e insert_commit_example consume_commit_example by blast
qed

subsection \<open>Who holds the locks when the pages are swapped\<close>

text \<open>
  The run continued with a second insert while thread 1 is still consuming \<open>Buffer1\<close>.
  The commits swap the pages only after \<^verbatim>\<open>try_lock\<close> of the other lock succeeded, so
  under both locks.
\<close>

lemma begin_insert_again:
  "begin_insert no_clear 0 new_transaction tpd_consuming = Some (Inr (True, \<lparr>buffer = Some Buffer2, parent = True\<rparr>, tpd_inserting_again))"
  by (simp add: begin_insert_def initialized_def tpd_consuming_def tpd_inserting_again_def Let_def new_transaction_def
     transaction_init_def set_sequence_number_def get_sequence_number_def clear_page_def no_clear_def eval_nat_numeral)

lemma insert_commit_again:
  "insert_commit 0 \<lparr>buffer = Some Buffer2, parent = True\<rparr> tpd_inserting_again = Inr (new_transaction, tpd_draining)"
  by (simp add: insert_commit_def tpd_draining_def tpd_inserting_again_def Let_def new_transaction_def unlock_def)

lemma reachable_consuming: "reachable no_clear tpd_consuming"
  by (rule reachable_op[OF reachable_one_pending op_try_consume[OF try_consume_example]])

lemma reachable_draining: "reachable no_clear tpd_draining"
  by (rule reachable_op[OF reachable_op[OF reachable_consuming op_begin_insert[OF begin_insert_again]]
        op_insert_commit[OF _ _ insert_commit_again]])
     (simp_all add: tpd_inserting_again_def)

lemma try_consume_second_consumer:
  "try_consume 2 new_transaction tpd_draining = Inr (cr_too_many_consumers, new_transaction, tpd_swapped_under_consumer)"
  by (simp add: try_consume_def try_consume_acquire_def tpd_draining_def tpd_inserting_again_def
      tpd_swapped_under_consumer_def
     initialized_def Let_def new_transaction_def unlock_def try_lock_def switch_pages_def get_sequence_number_def
     transaction_init_def)

lemma insert_commit_swaps:
  assumes "insert_commit t x s = Inr (x', s')" "inserting s = Some t"
  shows "\<exists>es. swap_log s' = swap_log s @ es \<and> list_all swapped_under_both_locks es"
  using assms
  by (auto simp: insert_commit_def Let_def unlock_def try_lock_def switch_pages_def swapped_under_both_locks_def
      split: if_splits option.splits sum.splits prod.splits)

lemma consume_commit_swaps:
  assumes "consume_commit t x s = Inr (x', s')" "consuming s = Some t"
  shows "\<exists>es. swap_log s' = swap_log s @ es \<and> list_all swapped_under_both_locks es"
  using assms
  by (auto simp: consume_commit_def Let_def unlock_def try_lock_def switch_pages_def swapped_under_both_locks_def
      split: if_splits option.splits sum.splits prod.splits)

text \<open>
  C3. \<^verbatim>\<open>try_consume\<close> swaps the pages without holding the consuming lock: when the
  consumer page holds nothing new it takes the inserting lock and calls \<^verbatim>\<open>switch_pages\<close>
  at once, and tries the consuming lock only afterwards. In the state \<open>tpd_draining\<close>, which a run reaches, thread 1 holds the
  consuming lock and is draining \<open>Buffer1\<close>; a call of \<^verbatim>\<open>try_consume\<close> by thread 2 swaps
  the pages while the consuming lock is held by thread 1, not by thread 2, returns
  \<^verbatim>\<open>cr_too_many_consumers\<close>, and leaves \<open>Buffer1\<close> as the inserter page.
\<close>

theorem try_consume_swaps_without_consuming_lock:
  "reachable no_clear tpd_draining
   \<and> consuming tpd_draining = Some 1 \<and> consumer tpd_draining = Some Buffer1
   \<and> try_consume 2 new_transaction tpd_draining
       = Inr (cr_too_many_consumers, new_transaction, tpd_swapped_under_consumer)
   \<and> swap_log tpd_swapped_under_consumer = swap_log tpd_draining @ [(2, Some 2, Some 1)]
   \<and> \<not> swapped_under_both_locks (2, Some 2, Some 1)
   \<and> inserter tpd_swapped_under_consumer = Some Buffer1"
  using reachable_draining try_consume_second_consumer
  by (simp add: tpd_swapped_under_consumer_def tpd_draining_def tpd_inserting_again_def
      swapped_under_both_locks_def)

subsection \<open>Two consumers whose calls overlap\<close>

text \<open>
  The parts make up the calls.
\<close>

lemma switch_pages_parts: "switch_pages t s = switch_pages_publish (switch_pages_swap t s)"
  by (simp add: switch_pages_def switch_pages_swap_def switch_pages_publish_def Let_def
      get_sequence_number_def)

lemma try_consume_acquire_parts:
  "try_consume_acquire t x s =
     (case try_consume_lock t s of
        (locked, s1) \<Rightarrow>
          if \<not> locked then Inr (cr_too_many_consumers, x, s)
          else map_sum id (\<lambda>(x1, s2). (cr_success, x1, s2)) (try_consume_init x s1))"
  by (auto simp: try_consume_acquire_def try_consume_lock_def try_consume_init_def Let_def
      split: prod.splits sum.splits option.splits)

text \<open>
  With two consumers the swap that \<^verbatim>\<open>try_consume\<close> makes without the consuming lock
  breaks the order of the sequence numbers and loses a generation, when the statements of
  the two calls are interleaved. From \<open>tpd_one_pending\<close>, where generation 2 waits on
  \<open>Buffer1\<close>:

  \<^item> thread 2 enters \<^verbatim>\<open>try_consume\<close> and finds nothing consumable;
  \<^item> thread 1 enters \<^verbatim>\<open>try_consume\<close>, swaps the pages, and takes the consuming lock:
    the state is \<open>tpd_consumer_locked\<close>, and what is left of its call is \<open>try_consume_init\<close>;
  \<^item> thread 0 inserts generation 3 into \<open>Buffer2\<close> and commits;
  \<^item> thread 2 goes on: it takes the inserting lock, finds an insert that is not enqueued,
    and exchanges the pointers;
  \<^item> thread 1 goes on: it reads the consumer page, now \<open>Buffer2\<close>, and sets the last consumed
    sequence number to 3, above the last enqueued one, which is 2;
  \<^item> thread 2 goes on: it sets the last enqueued sequence number to 3 and releases the
    inserting lock.

  Thread 1 holds \<open>Buffer2\<close>. Generation 2 is on \<open>Buffer1\<close>, which is now the inserter page
  and stale: nobody has consumed it, and the next \<^verbatim>\<open>begin_insert\<close> clears it.
\<close>

lemma overlapping_consumers_lose_a_generation:
  "\<not> (last_enqueued_sequence_number tpd_one_pending > last_consumed_sequence_number tpd_one_pending)
   \<and> try_consume 1 new_transaction tpd_one_pending
       = map_sum id (\<lambda>(x1, s2). (cr_success, x1, s2)) (try_consume_init new_transaction tpd_consumer_locked)
   \<and> begin_insert no_clear 0 new_transaction tpd_consumer_locked
       = Some (Inr (True, \<lparr>buffer = Some Buffer2, parent = True\<rparr>,
                    tpd_inserting_again\<lparr>last_consumed_sequence_number := 1\<rparr>))
   \<and> insert_commit 0 \<lparr>buffer = Some Buffer2, parent = True\<rparr>
        (tpd_inserting_again\<lparr>last_consumed_sequence_number := 1\<rparr>)
       = Inr (new_transaction, tpd_next_inserted)
   \<and> try_lock 2 (inserting tpd_next_inserted) = (True, Some 2)
   \<and> last_inserted_sequence_number tpd_next_inserted > last_enqueued_sequence_number tpd_next_inserted
   \<and> switch_pages_swap 2 (tpd_next_inserted\<lparr>inserting := Some 2\<rparr>) = tpd_pointers_exchanged
   \<and> try_consume_init new_transaction tpd_pointers_exchanged
       = Inr (\<lparr>buffer = Some Buffer2, parent = True\<rparr>, tpd_consumed_ahead)
   \<and> last_consumed_sequence_number tpd_consumed_ahead = 3
   \<and> last_enqueued_sequence_number tpd_consumed_ahead = 2
   \<and> \<not> sn_ordered tpd_consumed_ahead
   \<and> map_sum id (\<lambda>s. s\<lparr>inserting := unlock (inserting s)\<rparr>) (switch_pages_publish tpd_consumed_ahead)
       = Inr tpd_generation_lost
   \<and> inserter tpd_generation_lost = Some Buffer1
   \<and> get_sequence_number Buffer1 tpd_generation_lost = 2
   \<and> last_consumed_sequence_number tpd_generation_lost = 3"
  by (simp add: try_consume_def try_consume_acquire_parts try_consume_lock_def try_consume_init_def
      switch_pages_parts switch_pages_swap_def switch_pages_publish_def
      begin_insert_def insert_commit_def clear_page_def no_clear_def
      tpd_one_pending_def tpd_inserting_def tpd_consuming_def tpd_consumer_locked_def
      tpd_inserting_again_def tpd_draining_def tpd_next_inserted_def tpd_pointers_exchanged_def
      tpd_consumed_ahead_def tpd_generation_lost_def
      initialized_def Let_def new_transaction_def unlock_def try_lock_def
      get_sequence_number_def set_sequence_number_def transaction_init_def sn_ordered_def)

section \<open>Properties of the arena allocator\<close>

subsection \<open>What allocate returns\<close>

text \<open>
  The three paths of \<^verbatim>\<open>allocate\<close>: the allocation fits; it does not fit and a record is in
  progress; it does not fit and a new record is being started.
\<close>

lemma allocate_stays:
  assumes "0 < k" "prev_cursor a = Some pc"
    and "ptr_less (ptr_add (cursor a) (words k)) (end_of_page a)"
  shows "allocate k a = Inr (cursor a,
           a\<lparr>last_allocated := Some (cursor a), cursor := ptr_add (cursor a) (words k),
             mem := (mem a)(pc := Link (Some (ptr_add (cursor a) (words k))),
                            ptr_add (cursor a) (words k) := Link None)\<rparr>)"
  using assms by (simp add: allocate_def words_def Let_def store_link_def)

lemma allocate_grows_in_record:
  assumes "0 < k" "prev_cursor a = Some pc" "pc \<noteq> cursor a" "pages a \<noteq> []"
    and "\<not> ptr_less (ptr_add (cursor a) (words k)) (end_of_page a)"
  shows "allocate k a = Inr ((fresh a, 0),
           a\<lparr>fresh := fresh a + 1, pages := pages a @ [grown_page k a],
             end_of_page := (fresh a, storage_end (grown_page k a)),
             last_allocated := Some (fresh a, 0), cursor := (fresh a, words k),
             mem := (mem a)((fresh a, 0) := Link None,
                            pc := Link (Some (fresh a, words k)),
                            (fresh a, words k) := Link None)\<rparr>)"
  using assms
  by (cases "pages a")
     (auto simp: allocate_def words_def Let_def store_link_def new_page_def grown_page_def
        storage_begin_def ptr_add_def max_def)

lemma allocate_grows_new_record:
  assumes "0 < k" "prev_cursor a = Some (cursor a)" "pages a \<noteq> []"
    and "\<not> ptr_less (ptr_add (cursor a) (words k)) (end_of_page a)"
  shows "allocate k a = Inr ((fresh a, 0),
           a\<lparr>fresh := fresh a + 1, pages := pages a @ [grown_page k a],
             end_of_page := (fresh a, storage_end (grown_page k a)),
             prev_cursor := Some (fresh a, 0),
             last_allocated := Some (fresh a, 0), cursor := (fresh a, words k),
             mem := (mem a)((fresh a, 0) := Link None,
                            ptr_add (cursor a) 1 := Obj Page_break,
                            cursor a := Link (Some (fresh a, 0)),
                            (fresh a, 0) := Link (Some (fresh a, words k)),
                            (fresh a, words k) := Link None)\<rparr>)"
  using assms
  by (cases "pages a")
     (auto simp: allocate_def words_def Let_def store_link_def new_page_def grown_page_def
        storage_begin_def ptr_add_def max_def)

subsection \<open>Chains are kept by writes beyond them\<close>

lemma chain_cong:
  "chain m p r q \<Longrightarrow> list_all (\<lambda>x. m' (fst x) = m (fst x) \<and> m' (ptr_add (fst x) 1) = m (ptr_add (fst x) 1)) r
     \<Longrightarrow> chain m' p r q"
  by (induction r arbitrary: p) (auto split: cell.splits option.splits)

lemma chain_snoc:
  "chain m p r q \<Longrightarrow> m q = Link (Some n) \<Longrightarrow> m (ptr_add q 1) = Obj w \<Longrightarrow> chain m p (r @ [(q, w)]) n"
  by (induction r arbitrary: p) (auto split: cell.splits option.splits)

lemma words_ge: "0 < k \<Longrightarrow> 1 \<le> words k" "words (n + sizeof_size_t) \<ge> 2"
  by (simp_all add: words_def sizeof_size_t_def)

lemma memcpy_words: "(k + sizeof_size_t - 1) div sizeof_size_t \<le> words k"
  by (simp add: words_def sizeof_size_t_def)

lemma grown_page_end:
  assumes "511 \<le> storage_end (last (pages a))"
  shows "words k < storage_end (grown_page k a)" "511 \<le> storage_end (grown_page k a)"
  using assms by (auto simp: grown_page_def words_def sizeof_size_t_def Let_def max_def)

lemma frame_below:
  assumes "frame F c m m'" "fst x < F" "below x c"
  shows "m' x = m x" "m' (ptr_add x 1) = m (ptr_add x 1)"
proof -
  from assms(3) have "fst x \<noteq> fst c \<or> snd x < snd c" by (auto simp: below_def)
  with assms(1,2) show "m' x = m x" unfolding frame_def by blast
  from assms(3) have "fst (ptr_add x 1) \<noteq> fst c \<or> snd (ptr_add x 1) < snd c"
    by (auto simp: below_def ptr_add_def)
  moreover have "fst (ptr_add x 1) < F" using assms(2) by (simp add: ptr_add_def)
  ultimately show "m' (ptr_add x 1) = m (ptr_add x 1)" using assms(1) unfolding frame_def by blast
qed

lemma chain_frame:
  assumes "chain m p r q" "frame F c m m'"
    and "list_all (\<lambda>x. fst (fst x) < F \<and> below (fst x) c) r"
  shows "chain m' p r q"
proof (rule chain_cong[OF assms(1)])
  show "list_all (\<lambda>x. m' (fst x) = m (fst x) \<and> m' (ptr_add (fst x) 1) = m (ptr_add (fst x) 1)) r"
    using assms(3) frame_below[OF assms(2)] unfolding list_all_iff by blast
qed

lemma frame_refl: "frame F c m m"
  by (simp add: frame_def)

lemma frame_trans: "frame F c m m1 \<Longrightarrow> frame F c m1 m2 \<Longrightarrow> frame F c m m2"
  by (simp add: frame_def)

lemma frame_upd:
  "(fst x = fst c \<and> snd c \<le> snd x) \<or> F \<le> fst x \<Longrightarrow> frame F c m (m(x := v))"
  unfolding frame_def by (metis fun_upd_other linorder_not_less)

lemma frame_upd':
  "frame F c m m1 \<Longrightarrow> (fst x = fst c \<and> snd c \<le> snd x) \<or> F \<le> fst x \<Longrightarrow> frame F c m (m1(x := v))"
  using frame_trans frame_upd by blast

lemma mem_memcpy:
  "mem (memcpy dst n a) x =
     (if fst x = fst dst \<and> snd dst \<le> snd x \<and> snd x < snd dst + (n + sizeof_size_t - 1) div sizeof_size_t
      then Payload else mem a x)"
  by (simp add: memcpy_def)

lemma memcpy_fields [simp]:
  "cursor (memcpy dst n a) = cursor a" "prev_cursor (memcpy dst n a) = prev_cursor a"
  "end_of_page (memcpy dst n a) = end_of_page a" "pages (memcpy dst n a) = pages a"
  "ep (memcpy dst n a) = ep a" "last_allocated (memcpy dst n a) = last_allocated a"
  "fresh (memcpy dst n a) = fresh a"
  by (simp_all add: memcpy_def)

lemma frame_memcpy:
  "frame F c m (mem a) \<Longrightarrow> (fst dst = fst c \<and> snd c \<le> snd dst) \<or> F \<le> fst dst
     \<Longrightarrow> frame F c m (mem (memcpy dst n a))"
  unfolding frame_def mem_memcpy by (metis linorder_not_less order_trans)

lemma open_invD:
  assumes "open_inv a r pc"
  shows "base_inv a" "chain (mem a) (storage_begin (hd (pages a))) r pc"
    "prev_cursor a = Some pc" "mem a pc = Link (Some (cursor a))"
    "fst pc < fresh a" "below pc (cursor a)"
    "list_all (\<lambda>x. fst (fst x) < fresh a \<and> below (fst x) (cursor a) \<and> below (fst x) pc) r"
  using assms by (simp_all add: open_inv_def)

lemma base_invD:
  assumes "base_inv a"
  shows "pages a \<noteq> []" "distinct (map pid (pages a))" "list_all (\<lambda>p. pid p < fresh a) (pages a)"
    "fst (cursor a) = pid (last (pages a))"
    "end_of_page a = (pid (last (pages a)), storage_end (last (pages a)))"
    "snd (cursor a) < storage_end (last (pages a))" "511 \<le> storage_end (last (pages a))"
    "mem a (cursor a) = Link None"
  using assms by (simp_all add: base_inv_def)

lemma last_pid_fresh: "base_inv a \<Longrightarrow> fst (cursor a) < fresh a"
  by (simp add: base_inv_def list_all_iff)

lemma list_all_weaken: "list_all P xs \<Longrightarrow> (\<And>x. P x \<Longrightarrow> Q x) \<Longrightarrow> list_all Q xs"
  by (simp add: list_all_iff)

lemma below_step: "below x c \<Longrightarrow> below x (ptr_add c n)"
  by (auto simp: below_def ptr_add_def)

lemma below_other: "fst x \<noteq> p \<Longrightarrow> below x (p, n)"
  by (simp add: below_def)

lemma allocate_open_stays:
  assumes inv: "open_inv a r pc" and k: "0 < k"
    and fits: "ptr_less (ptr_add (cursor a) (words k)) (end_of_page a)"
  shows "\<exists>loc a'. allocate k a = Inr (loc, a') \<and> open_inv (memcpy loc k a') r pc \<and> ep a' = ep a"
proof -
  note o = open_invD[OF inv] and b = base_invD[OF open_invD(1)[OF inv]]
  let ?cw = "ptr_add (cursor a) (words k)"
  let ?m1 = "(mem a)(pc := Link (Some ?cw))"
  let ?a' = "a\<lparr>last_allocated := Some (cursor a), cursor := ?cw, mem := ?m1(?cw := Link None)\<rparr>"
  let ?b = "memcpy (cursor a) k ?a'"
  have st: "allocate k a = Inr (cursor a, ?a')" by (rule allocate_stays[OF k o(3) fits])
  have w: "(k + sizeof_size_t - 1) div sizeof_size_t \<le> words k" "1 \<le> words k"
    using memcpy_words words_ge(1)[OF k] by auto
  have cw: "mem ?b ?cw = Link None"
    using w by (simp add: mem_memcpy ptr_add_def)
  have pcne: "pc \<noteq> ?cw" "\<not> (fst pc = fst (cursor a) \<and> snd (cursor a) \<le> snd pc)"
    using o(6) by (auto simp: below_def ptr_add_def)
  have pcv: "mem ?b pc = Link (Some ?cw)"
    using pcne by (auto simp: mem_memcpy)
  have base: "base_inv ?b"
    using b fits cw by (simp add: base_inv_def ptr_add_def ptr_less_def)
  have f1: "frame (fresh a) pc (mem a) ?m1"
    by (rule frame_upd) simp
  have c1: "chain ?m1 (storage_begin (hd (pages a))) r pc"
    by (rule chain_frame[OF o(2) f1]) (rule list_all_weaken[OF o(7)], simp)
  have f2: "frame (fresh a) (cursor a) ?m1 (mem ?b)"
    by (rule frame_memcpy, simp, rule frame_upd) (simp_all add: ptr_add_def)
  have c2: "chain (mem ?b) (storage_begin (hd (pages a))) r pc"
    by (rule chain_frame[OF c1 f2]) (rule list_all_weaken[OF o(7)], simp)
  have fp: "list_all (\<lambda>x. fst (fst x) < fresh a \<and> below (fst x) ?cw \<and> below (fst x) pc) r"
    by (rule list_all_weaken[OF o(7)]) (simp add: below_step)
  have "open_inv ?b r pc"
    using base c2 o(3) pcv o(5) below_step[OF o(6)] fp by (simp add: open_inv_def)
  then show ?thesis using st by simp
qed

lemma base_inv_grown:
  assumes b: "base_inv a"
    and f: "fresh a' = fresh a + 1" "pages a' = pages a @ [grown_page k a]"
      "end_of_page a' = (fresh a, storage_end (grown_page k a))"
      "cursor a' = (fresh a, words k)" "mem a' (fresh a, words k) = Link None"
  shows "base_inv a'"
proof -
  note b' = base_invD[OF b]
  have g: "words k < storage_end (grown_page k a)" "511 \<le> storage_end (grown_page k a)"
    using grown_page_end[OF b'(7), of k] by simp_all
  have p: "pid (grown_page k a) = fresh a" by (simp add: grown_page_def Let_def)
  have d: "distinct (map pid (pages a @ [grown_page k a]))"
    using b'(2,3) p by (auto simp: list_all_iff)
  have l: "list_all (\<lambda>p. pid p < fresh a + 1) (pages a @ [grown_page k a])"
    using b'(3) p by (auto simp: list_all_iff)
  show ?thesis using g p d l f by (simp add: base_inv_def)
qed

lemma not_fits_iff:
  "base_inv a \<Longrightarrow> ptr_less (ptr_add (cursor a) n) (end_of_page a) = (snd (cursor a) + n < storage_end (last (pages a)))"
  by (simp add: base_inv_def ptr_less_def ptr_add_def)

lemma allocate_open_grows:
  assumes inv: "open_inv a r pc" and k: "0 < k"
    and nofit: "\<not> ptr_less (ptr_add (cursor a) (words k)) (end_of_page a)"
  shows "\<exists>a'. allocate k a = Inr ((fresh a, 0), a') \<and> open_inv (memcpy (fresh a, 0) k a') r pc
           \<and> ep a' = ep a \<and> pages a' = pages a @ [grown_page k a]
           \<and> mem a' (cursor a) = Link None
           \<and> mem a' (ptr_add (cursor a) 1) = mem a (ptr_add (cursor a) 1)
           \<and> mem a' pc = Link (Some (fresh a, words k))"
proof -
  note o = open_invD[OF inv] and b = base_invD[OF open_invD(1)[OF inv]]
  let ?F = "fresh a"
  let ?cw = "(?F, words k)"
  let ?m1 = "(mem a)((?F, 0) := Link None)"
  let ?m2 = "?m1(pc := Link (Some ?cw))"
  let ?a' = "a\<lparr>fresh := fresh a + 1, pages := pages a @ [grown_page k a],
             end_of_page := (fresh a, storage_end (grown_page k a)),
             last_allocated := Some (fresh a, 0), cursor := ?cw,
             mem := ?m2(?cw := Link None)\<rparr>"
  let ?b = "memcpy (?F, 0) k ?a'"
  have pcc: "pc \<noteq> cursor a" using o(6) by (auto simp: below_def)
  have st: "allocate k a = Inr ((?F, 0), ?a')"
    by (rule allocate_grows_in_record[OF k o(3) pcc b(1) nofit])
  have w: "(k + sizeof_size_t - 1) div sizeof_size_t \<le> words k" "1 \<le> words k"
    using memcpy_words words_ge(1)[OF k] by auto
  have cw: "mem ?b ?cw = Link None"
    using w by (simp add: mem_memcpy)
  have pcF: "fst pc \<noteq> ?F" using o(5) by simp
  then have pcne: "pc \<noteq> ?cw" "pc \<noteq> (?F, 0)" by auto
  have pcv: "mem ?b pc = Link (Some ?cw)"
    using pcne pcF by (auto simp: mem_memcpy)
  have base: "base_inv ?b"
    by (rule base_inv_grown[OF o(1), of _ k]) (use cw in simp_all)
  have hd: "hd (pages a @ [grown_page k a]) = hd (pages a)" using b(1) by simp
  have f1: "frame ?F pc (mem a) ?m2"
    by (rule frame_upd', rule frame_upd) simp_all
  have c1: "chain ?m2 (storage_begin (hd (pages a))) r pc"
    by (rule chain_frame[OF o(2) f1]) (rule list_all_weaken[OF o(7)], simp)
  have f2: "frame ?F (cursor a) ?m2 (mem ?b)"
    by (rule frame_memcpy, simp, rule frame_upd) simp_all
  have c2: "chain (mem ?b) (storage_begin (hd (pages a))) r pc"
    by (rule chain_frame[OF c1 f2]) (rule list_all_weaken[OF o(7)], simp)
  have fp: "list_all (\<lambda>x. fst (fst x) < ?F + 1 \<and> below (fst x) ?cw \<and> below (fst x) pc) r"
    by (rule list_all_weaken[OF o(7)]) (simp add: below_def)
  have oi: "open_inv ?b r pc"
    using base c2 o(3) pcv o(5) pcF fp hd by (simp add: open_inv_def below_def)
  have cF: "fst (cursor a) \<noteq> ?F" using last_pid_fresh[OF o(1)] by simp
  then have cne: "cursor a \<noteq> (?F, 0)" "cursor a \<noteq> ?cw" "ptr_add (cursor a) 1 \<noteq> (?F, 0)"
    "ptr_add (cursor a) 1 \<noteq> ?cw"
    by (auto simp: ptr_add_def)
  have pc1: "ptr_add (cursor a) 1 \<noteq> pc" using o(6) by (auto simp: below_def ptr_add_def)
  have m: "mem ?a' (cursor a) = Link None" "mem ?a' (ptr_add (cursor a) 1) = mem a (ptr_add (cursor a) 1)"
    "mem ?a' pc = Link (Some ?cw)"
    using cne pcc pc1 pcne b(8) by simp_all
  show ?thesis using st oi m by (intro exI[of _ ?a']) simp
qed

lemma allocate_open:
  assumes "open_inv a r pc" "0 < k"
  shows "\<exists>loc a'. allocate k a = Inr (loc, a') \<and> open_inv (memcpy loc k a') r pc \<and> ep a' = ep a"
proof (cases "ptr_less (ptr_add (cursor a) (words k)) (end_of_page a)")
  case True
  then show ?thesis by (rule allocate_open_stays[OF assms])
next
  case False
  from allocate_open_grows[OF assms False] show ?thesis by blast
qed

lemma arena_invD:
  assumes "arena_inv a r"
  shows "base_inv a" "chain (mem a) (storage_begin (hd (pages a))) r (cursor a)"
    "list_all (\<lambda>x. fst (fst x) < fresh a \<and> below (fst x) (cursor a)) r"
  using assms by (simp_all add: arena_inv_def)

lemma add_opens_stays:
  assumes inv: "arena_inv a r"
    and fits: "ptr_less (ptr_add (cursor a) (words (n + sizeof_size_t))) (end_of_page a)"
  shows "\<exists>a'. add n a = Inr (ptr_add (cursor a) 1, a') \<and> open_inv a' r (cursor a) \<and> ep a' = ep a"
proof -
  note o = arena_invD[OF inv] and b = base_invD[OF arena_invD(1)[OF inv]]
  let ?k = "n + sizeof_size_t"
  let ?c = "cursor a"
  let ?a0 = "a\<lparr>prev_cursor := Some ?c\<rparr>"
  let ?cw = "ptr_add ?c (words ?k)"
  let ?m1 = "(mem a)(?c := Link (Some ?cw))"
  let ?a' = "?a0\<lparr>last_allocated := Some ?c, cursor := ?cw, mem := ?m1(?cw := Link None)\<rparr>"
  have k: "0 < ?k" by (simp add: sizeof_size_t_def)
  have st: "allocate ?k ?a0 = Inr (?c, ?a')"
    using allocate_stays[OF k, of ?a0 ?c] fits by simp
  have w: "2 \<le> words ?k" by (rule words_ge(2))
  have ne: "?c \<noteq> ?cw" using w by (simp add: ptr_add_def prod_eq_iff)
  have base: "base_inv ?a'"
    using b fits by (simp add: base_inv_def ptr_add_def ptr_less_def)
  have f1: "frame (fresh a) ?c (mem a) (mem ?a')"
    by (simp, rule frame_upd', rule frame_upd) (simp_all add: ptr_add_def)
  have c1: "chain (mem ?a') (storage_begin (hd (pages a))) r ?c"
    by (rule chain_frame[OF o(2) f1]) (rule o(3))
  have fp: "list_all (\<lambda>x. fst (fst x) < fresh a \<and> below (fst x) ?cw \<and> below (fst x) ?c) r"
    by (rule list_all_weaken[OF o(3)]) (simp add: below_step)
  have bl: "below ?c ?cw" using w by (simp add: below_def ptr_add_def)
  have "open_inv ?a' r ?c"
    using base c1 fp bl ne last_pid_fresh[OF o(1)] by (simp add: open_inv_def)
  then show ?thesis using st by (simp add: add_def)
qed

lemma add_opens_grows:
  assumes inv: "arena_inv a r"
    and nofit: "\<not> ptr_less (ptr_add (cursor a) (words (n + sizeof_size_t))) (end_of_page a)"
  shows "\<exists>a'. add n a = Inr ((fresh a, 1), a')
           \<and> open_inv a' (r @ [(cursor a, Page_break)]) (fresh a, 0) \<and> ep a' = ep a
           \<and> pages a' = pages a @ [grown_page (n + sizeof_size_t) a]
           \<and> mem a' (ptr_add (cursor a) 1) = Obj Page_break
           \<and> mem a' (cursor a) = Link (Some (fresh a, 0))"
proof -
  note o = arena_invD[OF inv] and b = base_invD[OF arena_invD(1)[OF inv]]
  let ?k = "n + sizeof_size_t"
  let ?c = "cursor a"
  let ?F = "fresh a"
  let ?a0 = "a\<lparr>prev_cursor := Some ?c\<rparr>"
  let ?cw = "(?F, words ?k)"
  let ?m = "(mem a)((?F, 0) := Link None, ptr_add ?c 1 := Obj Page_break,
                    ?c := Link (Some (?F, 0)), (?F, 0) := Link (Some ?cw), ?cw := Link None)"
  let ?a' = "?a0\<lparr>fresh := ?F + 1, pages := pages a @ [grown_page ?k a],
             end_of_page := (?F, storage_end (grown_page ?k a)),
             prev_cursor := Some (?F, 0),
             last_allocated := Some (?F, 0), cursor := ?cw, mem := ?m\<rparr>"
  have k: "0 < ?k" by (simp add: sizeof_size_t_def)
  have g: "grown_page ?k ?a0 = grown_page ?k a" by (simp add: grown_page_def)
  have st: "allocate ?k ?a0 = Inr ((?F, 0), ?a')"
    using allocate_grows_new_record[OF k, of ?a0] nofit b(1) g by simp
  have w: "2 \<le> words ?k" by (rule words_ge(2))
  have cF: "fst ?c < ?F" by (rule last_pid_fresh[OF o(1)])
  then have ne: "?c \<noteq> ?cw" "?c \<noteq> (?F, 0)" "ptr_add ?c 1 \<noteq> ?cw" "ptr_add ?c 1 \<noteq> (?F, 0)"
    "ptr_add ?c 1 \<noteq> ?c" "(?F, 0) \<noteq> ?cw"
    using w by (auto simp: ptr_add_def prod_eq_iff)
  have base: "base_inv ?a'"
    by (rule base_inv_grown[OF o(1), of _ ?k]) simp_all
  have hd: "hd (pages a @ [grown_page ?k a]) = hd (pages a)" using b(1) by simp
  have f1: "frame ?F ?c (mem a) ?m"
    by (rule frame_upd', rule frame_upd', rule frame_upd', rule frame_upd', rule frame_upd)
       (simp_all add: ptr_add_def)
  have c1: "chain ?m (storage_begin (hd (pages a))) r ?c"
    by (rule chain_frame[OF o(2) f1]) (rule o(3))
  have c2: "chain ?m (storage_begin (hd (pages a))) (r @ [(?c, Page_break)]) (?F, 0)"
    by (rule chain_snoc[OF c1]) (use ne in simp_all)
  have fp: "list_all (\<lambda>x. fst (fst x) < ?F + 1 \<and> below (fst x) ?cw \<and> below (fst x) (?F, 0)) r"
    by (rule list_all_weaken[OF o(3)]) (simp add: below_def)
  have bl: "below (?F, 0) ?cw" using w by (simp add: below_def)
  have oi: "open_inv ?a' (r @ [(?c, Page_break)]) (?F, 0)"
    using base c2 fp bl ne cF hd by (simp add: open_inv_def below_def)
  have m: "mem ?a' (ptr_add ?c 1) = Obj Page_break" "mem ?a' ?c = Link (Some (?F, 0))"
    using ne by simp_all
  show ?thesis using st oi m by (intro exI[of _ ?a']) (simp add: add_def ptr_add_def)
qed

lemma close_record:
  assumes inv: "open_inv a r pc"
  shows "arena_inv (a\<lparr>mem := (mem a)(ptr_add pc 1 := Obj w)\<rparr>) (r @ [(pc, w)])"
proof -
  note o = open_invD[OF inv] and b = base_invD[OF open_invD(1)[OF inv]]
  let ?m = "(mem a)(ptr_add pc 1 := Obj w)"
  have ne: "ptr_add pc 1 \<noteq> cursor a" "ptr_add pc 1 \<noteq> pc"
    using o(6) by (auto simp: below_def ptr_add_def prod_eq_iff)
  have base: "base_inv (a\<lparr>mem := ?m\<rparr>)"
    using o(1) ne by (simp add: base_inv_def)
  have f: "frame (fresh a) pc (mem a) ?m"
    by (rule frame_upd) (simp add: ptr_add_def)
  have c1: "chain ?m (storage_begin (hd (pages a))) r pc"
    by (rule chain_frame[OF o(2) f]) (rule list_all_weaken[OF o(7)], simp)
  have c2: "chain ?m (storage_begin (hd (pages a))) (r @ [(pc, w)]) (cursor a)"
    by (rule chain_snoc[OF c1]) (use ne o(4) in simp_all)
  have fp: "list_all (\<lambda>x. fst (fst x) < fresh a \<and> below (fst x) (cursor a)) r"
    by (rule list_all_weaken[OF o(7)]) simp
  show ?thesis using base c2 fp o(5,6) by (simp add: arena_inv_def)
qed

lemma works_append: "works (r @ r') = works r @ works r'"
  by (induction r rule: works.induct) simp_all

lemma drain_worklet_page_break: "drain_worklet V e ostr istr Page_break d = Inr d"
  by (simp add: drain_worklet_def)

lemma apply_all_works:
  "apply_all V e ostr istr (map snd r) d = apply_all V e ostr istr (map Work (works r)) d"
  by (induction r arbitrary: d rule: works.induct)
     (simp_all add: drain_worklet_page_break split: sum.splits)

lemma drain_loop_chain:
  "chain m p r q \<Longrightarrow> m q = Link None \<Longrightarrow>
     drain_loop V e ostr istr m p d = Some (apply_all V e ostr istr (map snd r) d)"
proof (induction r arbitrary: p d)
  case Nil
  then show ?case by (subst drain_loop.simps) simp
next
  case (Cons x r)
  from Cons.prems(1) obtain n where n: "m (ptr_add p 1) = Obj (snd x)"
    "m p = Link (Some n)" "chain m n r q"
    by (auto split: cell.splits option.splits)
  show ?case
    by (subst drain_loop.simps)
       (simp del: One_nat_def add: n(1,2) Cons.IH[OF n(3) Cons.prems(2)] split: sum.splits)
qed


lemma copy_payloads_open:
  "open_inv a r pc \<Longrightarrow> list_all (\<lambda>k. 0 < k) ks \<Longrightarrow>
     \<exists>a'. copy_payloads ks a = Inr a' \<and> open_inv a' r pc \<and> ep a' = ep a"
proof (induction ks arbitrary: a)
  case Nil
  then show ?case by simp
next
  case (Cons k ks)
  from Cons.prems(2) have k: "0 < k" and ks: "list_all (\<lambda>k. 0 < k) ks" by simp_all
  from allocate_open[OF Cons.prems(1) k] obtain loc a1 where
    a1: "allocate k a = Inr (loc, a1)" "open_inv (memcpy loc k a1) r pc" "ep a1 = ep a" by blast
  from Cons.IH[OF a1(2) ks] obtain a' where
    "copy_payloads ks (memcpy loc k a1) = Inr a'" "open_inv a' r pc" "ep a' = ep (memcpy loc k a1)"
    by blast
  then show ?case using a1 by simp
qed

lemma add_opens:
  assumes "arena_inv a r"
  shows "\<exists>loc a' pb pc. add n a = Inr (loc, a') \<and> loc = ptr_add pc 1 \<and> open_inv a' (r @ pb) pc
           \<and> ep a' = ep a \<and> (pb = [] \<or> pb = [(cursor a, Page_break)])"
proof (cases "ptr_less (ptr_add (cursor a) (words (n + sizeof_size_t))) (end_of_page a)")
  case True
  from add_opens_stays[OF assms True] obtain a' where
    "add n a = Inr (ptr_add (cursor a) 1, a')" "open_inv a' r (cursor a)" "ep a' = ep a" by blast
  then show ?thesis
    by (intro exI[of _ "ptr_add (cursor a) 1"] exI[of _ a'] exI[of _ "[]"] exI[of _ "cursor a"]) simp
next
  case False
  from add_opens_grows[OF assms False] obtain a' where
    "add n a = Inr ((fresh a, 1), a')" "open_inv a' (r @ [(cursor a, Page_break)]) (fresh a, 0)"
    "ep a' = ep a" by blast
  moreover have "(fresh a, 1) = ptr_add (fresh a, 0) 1" by (simp add: ptr_add_def)
  ultimately show ?thesis
    by (intro exI[of _ "(fresh a, 1)"] exI[of _ a'] exI[of _ "[(cursor a, Page_break)]"]
        exI[of _ "(fresh a, 0)"]) simp
qed

lemma place_inv:
  assumes inv: "arena_inv a r" and ks: "list_all (\<lambda>k. 0 < k) ks"
  shows "\<exists>a' pb pc. place w n ks a = Inr a' \<and> arena_inv a' (r @ pb @ [(pc, Work w)])
           \<and> ep a' = ep a \<and> (pb = [] \<or> pb = [(cursor a, Page_break)])"
proof -
  from add_opens[OF inv, of n] obtain loc a1 pb pc where
    a1: "add n a = Inr (loc, a1)" "loc = ptr_add pc 1" "open_inv a1 (r @ pb) pc" "ep a1 = ep a"
      "pb = [] \<or> pb = [(cursor a, Page_break)]" by blast
  from copy_payloads_open[OF a1(3) ks] obtain a2 where
    a2: "copy_payloads ks a1 = Inr a2" "open_inv a2 (r @ pb) pc" "ep a2 = ep a1" by blast
  have "arena_inv (a2\<lparr>mem := (mem a2)(ptr_add pc 1 := Obj (Work w))\<rparr>) ((r @ pb) @ [(pc, Work w)])"
    by (rule close_record[OF a2(2)])
  moreover have "place w n ks a = Inr (a2\<lparr>mem := (mem a2)(ptr_add pc 1 := Obj (Work w))\<rparr>)"
    using a1 a2 by (simp add: place_def)
  ultimately show ?thesis using a1(4,5) a2(3)
    by (intro exI[of _ "a2\<lparr>mem := (mem a2)(ptr_add pc 1 := Obj (Work w))\<rparr>"] exI[of _ pb] exI[of _ pc])
       simp
qed

lemma place_all_inv:
  "arena_inv a r \<Longrightarrow> list_all (\<lambda>s. list_all (\<lambda>k. 0 < k) (snd (snd s))) subs \<Longrightarrow>
     \<exists>a' r'. place_all subs a = Inr a' \<and> arena_inv a' (r @ r') \<and> works r' = map fst subs
        \<and> ep a' = ep a"
proof (induction subs arbitrary: a r)
  case Nil
  then show ?case by (intro exI[of _ a] exI[of _ "[]"]) simp
next
  case (Cons s subs)
  obtain w n ks where s: "s = (w, n, ks)" by (cases s)
  from Cons.prems(2) s have ks: "list_all (\<lambda>k. 0 < k) ks"
    and rest: "list_all (\<lambda>s. list_all (\<lambda>k. 0 < k) (snd (snd s))) subs" by simp_all
  from place_inv[OF Cons.prems(1) ks, of w n] obtain a1 pb pc where
    a1: "place w n ks a = Inr a1" "arena_inv a1 (r @ pb @ [(pc, Work w)])" "ep a1 = ep a"
      "pb = [] \<or> pb = [(cursor a, Page_break)]" by blast
  from Cons.IH[OF a1(2) rest] obtain a' r' where
    a': "place_all subs a1 = Inr a'" "arena_inv a' ((r @ pb @ [(pc, Work w)]) @ r')"
      "works r' = map fst subs" "ep a' = ep a1" by blast
  have "works ((pb @ [(pc, Work w)]) @ r') = map fst (s # subs)"
    using a1(4) a'(3) s by (auto simp: works_append)
  moreover have "arena_inv a' (r @ ((pb @ [(pc, Work w)]) @ r'))" using a'(2) by simp
  moreover have "place_all (s # subs) a = Inr a'" using a1(1) a'(1) s by simp
  ultimately show ?case using a1(3) a'(4) by metis
qed


lemma clear_extra_pages_loop_fields [simp]:
  "cursor (clear_extra_pages_loop a ps) = cursor a"
  "prev_cursor (clear_extra_pages_loop a ps) = prev_cursor a"
  "end_of_page (clear_extra_pages_loop a ps) = end_of_page a"
  "ep (clear_extra_pages_loop a ps) = ep a"
  "last_allocated (clear_extra_pages_loop a ps) = last_allocated a"
  "fresh (clear_extra_pages_loop a ps) = fresh a"
  by (induction a ps rule: clear_extra_pages_loop.induct) (simp_all add: delete_page_def)



lemma clear_extra_pages_loop_single [simp]:
  "clear_extra_pages_loop a [p] = a\<lparr>pages := [p]\<rparr>"
  by simp





lemma ex_fresh_new: "new_allocator_impl (Some ex_policy) (\<lambda>x. Junk) = Some (Inr ex_fresh)"
  by (simp add: new_allocator_impl_def new_page_def sizeof_size_t_def ex_fresh_def page0_def
      page_break_size_in_std_size_ts_def sizeof_page_break_def Let_def clear_def clear_contents_def
      clear_extra_pages_def storage_begin_def ptr_add_def clear_contents_loop.simps[of _ "(0,0)"])

lemma ex_fresh_inv: "arena_inv ex_fresh []"
  by (simp add: arena_inv_def base_inv_def ex_fresh_def page0_def storage_begin_def)

lemma ex_two_items_inv:
  "arena_inv ex_two_items [((0, 0), Work ''boom''), ((0, 4), Work ''ok'')]"
  by (simp add: arena_inv_def base_inv_def ex_two_items_def page0_def storage_begin_def ptr_add_def below_def)

lemma ex_one_item_inv: "arena_inv ex_one_item [((0, 0), Work ''a'')]"
  by (simp add: arena_inv_def base_inv_def ex_one_item_def page0_def storage_begin_def ptr_add_def below_def)


lemma ex_in_record_inv: "open_inv ex_in_record [] (0, 0)"
  by (simp add: open_inv_def base_inv_def ex_in_record_def page0_def storage_begin_def ptr_add_def below_def)

lemma ex_two_items_placed:
  "place_all [(''boom'', 16, []), (''ok'', 16, [])] ex_fresh = Inr ex_two_items"
  by (simp add: place_def add_def allocate_def Let_def store_link_def ex_fresh_def ex_two_items_def
      sizeof_size_t_def ptr_add_def ptr_less_def page0_def fun_upd_twist)

lemma ex_in_record_added: "add 16 ex_fresh = Inr ((0, 1), ex_in_record)"
  by (simp add: add_def allocate_def Let_def store_link_def ex_fresh_def ex_in_record_def
      sizeof_size_t_def ptr_add_def ptr_less_def page0_def fun_upd_twist)

lemma ex_one_item_placed: "place ''a'' 4000 [] ex_fresh = Inr ex_one_item"
  by (simp add: place_def add_def allocate_def Let_def store_link_def ex_fresh_def ex_one_item_def
      sizeof_size_t_def ptr_add_def ptr_less_def page0_def fun_upd_twist)

lemma ex_two_pages_placed: "place ''b'' 100 [] ex_one_item = Inr ex_two_pages"
  by (simp add: place_def add_def allocate_def Let_def store_link_def ex_one_item_def ex_two_pages_def
      sizeof_size_t_def ptr_add_def ptr_less_def page0_def page1_def fun_upd_twist new_page_def
      storage_begin_def page_break_size_in_std_size_ts_def sizeof_page_break_def)

lemma apply_all_append:
  "apply_all V e ostr istr (xs @ ys) d =
     (case apply_all V e ostr istr xs d of Inl f \<Rightarrow> Inl f | Inr d1 \<Rightarrow> apply_all V e ostr istr ys d1)"
  by (induction xs arbitrary: d) (simp_all split: sum.splits)

lemma drain_arena_items:
  assumes "arena_inv a r"
  shows "drain V ostr istr a d = Some (apply_all V (ep a) ostr istr (map snd r) d)"
proof -
  note o = arena_invD[OF assms] and b = base_invD[OF arena_invD(1)[OF assms]]
  from b(1) obtain p ps where p: "pages a = p # ps" by (cases "pages a") auto
  show ?thesis
    using drain_loop_chain[OF o(2) b(8), of V "ep a" ostr istr d] p
    by (simp add: drain_def)
qed

subsection \<open>Order of application\<close>

text \<open>
  C1. Let work items be placed one after the other, by one producer, into a well-formed
  arena that holds the records \<open>r0\<close>; each submission is a work item, its size, and the
  sizes (not zero) of the payloads its constructor allocates. Then every placement succeeds
  and \<^verbatim>\<open>drain\<close> returns, having applied the work items already in the arena and then the
  submitted ones, in the order of their submission: it is the walk from the first record of
  the head page along the links, which visits the records in the order \<^verbatim>\<open>add\<close> placed them.
\<close>

theorem drain_applies_in_submission_order:
  assumes "arena_inv a0 r0"
    and "list_all (\<lambda>s. list_all (\<lambda>k. 0 < k) (snd (snd s))) subs"
  shows "\<exists>a. place_all subs a0 = Inr a
           \<and> drain V ostr istr a d
               = Some (apply_all V (ep a0) ostr istr (map Work (works r0 @ map fst subs)) d)"
proof -
  from place_all_inv[OF assms] obtain a r' where
    a: "place_all subs a0 = Inr a" "arena_inv a (r0 @ r')" "works r' = map fst subs" "ep a = ep a0"
    by blast
  have "drain V ostr istr a d
      = Some (apply_all V (ep a) ostr istr (map Work (works (r0 @ r'))) d)"
    by (simp only: drain_arena_items[OF a(2)] apply_all_works)
  then show ?thesis using a by (intro exI[of _ a]) (simp add: works_append)
qed

theorem drain_applies_in_submission_order_witness:
  "arena_inv ex_fresh []
   \<and> list_all (\<lambda>s. list_all (\<lambda>k. 0 < k) (snd (snd s))) ex_submissions
   \<and> (\<exists>a. place_all ex_submissions ex_fresh = Inr a
        \<and> drain ex_worklets True False a [] = Some (Inr [''a'', ''b'', ''c'']))"
proof -
  have l: "list_all (\<lambda>s. list_all (\<lambda>k. 0 < k) (snd (snd s))) ex_submissions"
    by (simp add: ex_submissions_def)
  have e: "apply_all ex_worklets (ep ex_fresh) True False
             (map Work (works [] @ map fst ex_submissions)) []
           = Inr [''a'', ''b'', ''c'']"
    by (simp add: drain_worklet_def ex_worklets_def ex_submissions_def)
  from drain_applies_in_submission_order[OF ex_fresh_inv l, of ex_worklets True False "[]"]
  show ?thesis using ex_fresh_inv l unfolding e by blast
qed

subsection \<open>A work item that throws\<close>

lemma arena_inv_ep: "arena_inv (a\<lparr>ep := e\<rparr>) r = arena_inv a r"
  by (simp add: arena_inv_def base_inv_def)

lemma ex_fresh_no_policy_new:
  "new_allocator_impl None (\<lambda>x. Junk) = Some (Inr ex_fresh_no_policy)"
  by (simp add: new_allocator_impl_def new_page_def sizeof_size_t_def ex_fresh_def page0_def
      ex_fresh_no_policy_def
      page_break_size_in_std_size_ts_def sizeof_page_break_def Let_def clear_def clear_contents_def
      clear_extra_pages_def storage_begin_def ptr_add_def clear_contents_loop.simps[of _ "(0,0)"])

lemma ex_no_policy_placed:
  "place_all [(''boom'', 16, []), (''ok'', 16, [])] ex_fresh_no_policy = Inr ex_no_policy"
  by (simp add: place_def add_def allocate_def Let_def store_link_def ex_fresh_def ex_two_items_def
      ex_fresh_no_policy_def ex_no_policy_def
      sizeof_size_t_def ptr_add_def ptr_less_def page0_def fun_upd_twist)

lemma ex_no_policy_inv:
  "arena_inv ex_no_policy [((0, 0), Work ''boom''), ((0, 4), Work ''ok'')]"
  using ex_two_items_inv by (simp add: ex_no_policy_def arena_inv_ep)

lemma drain_worklet_throws:
  assumes "\<not> is_a V Formatter_base w \<or> ostr" and "\<not> is_a V Parser_base w \<or> istr"
    and "apply_item V w d0 = (Some x, d1)"
  shows "drain_worklet V e ostr istr w d0
           = Inr (case e of
                    None \<Rightarrow> d1
                  | Some h \<Rightarrow>
                      if is_boost_exception x then catch_boost_exception h x d1
                      else if is_std_exception x then catch_std_exception h x d1
                      else catch_unknown_exception h d1)"
  using assms by (simp add: drain_worklet_def report_def split: option.splits)

text \<open>
  Counterexample to C5 as stated. The arena \<open>ex_no_policy\<close> belongs to a service without
  an error policy and holds the work items \<open>''boom''\<close>, which throws a \<^verbatim>\<open>std::exception\<close>,
  and \<open>''ok''\<close>. \<^verbatim>\<open>drain\<close> returns and the log holds \<open>''ok''\<close> alone: the drain went on, the
  exception did not leave it, and the failure was reported to nobody. With the policy
  \<open>ex_policy\<close> installed, the same items leave the mark of the callback in the log.
\<close>

theorem drain_without_policy_reports_nothing_counterexample:
  "place_all [(''boom'', 16, []), (''ok'', 16, [])] ex_fresh_no_policy = Inr ex_no_policy
   \<and> ep ex_no_policy = None
   \<and> apply_item ex_worklets (Work ''boom'') [] = (Some (Exception False True), [])
   \<and> drain ex_worklets True False ex_no_policy [] = Some (Inr [''ok''])
   \<and> drain ex_worklets True False ex_two_items [] = Some (Inr [''<generic>'', ''ok''])"
proof -
  have e: "ep ex_no_policy = None" by (simp add: ex_no_policy_def)
  have a: "apply_item ex_worklets (Work ''boom'') [] = (Some (Exception False True), [])"
    by (simp add: ex_worklets_def)
  have 1: "drain ex_worklets True False ex_no_policy [] = Some (Inr [''ok''])"
    by (simp add: drain_arena_items[OF ex_no_policy_inv] e drain_worklet_def ex_worklets_def report_def)
  have p: "ep ex_two_items = Some ex_policy" by (simp add: ex_two_items_def)
  have 2: "drain ex_worklets True False ex_two_items [] = Some (Inr [''<generic>'', ''ok''])"
    by (simp add: drain_arena_items[OF ex_two_items_inv] p drain_worklet_def ex_worklets_def report_def
        ex_policy_def)
  show ?thesis using ex_no_policy_placed e a 1 2 by blast
qed

text \<open>
  C5, amended. Let the work item \<open>w\<close>, reached by \<^verbatim>\<open>drain\<close> in state \<open>d0\<close> after the
  records \<open>r1\<close>, pass the two assertions and throw \<open>x\<close>, leaving state \<open>d1\<close>. Then
  \<^verbatim>\<open>drain\<close> returns, and its result is that of applying the records \<open>r2\<close> after \<open>w\<close>:
  the drain continues with the next record and the exception does not leave it. If an
  error policy \<open>h\<close> is installed, the records \<open>r2\<close> are applied to the state that one
  callback of \<open>h\<close>, called once, made of \<open>d1\<close>: \<^verbatim>\<open>catch_boost_exception\<close> for a
  \<^verbatim>\<open>boost::exception\<close>, else \<^verbatim>\<open>catch_std_exception\<close> for a \<^verbatim>\<open>std::exception\<close>, else
  \<^verbatim>\<open>catch_unknown_exception\<close>. If none is installed, the failure is dropped without a
  report, and the records \<open>r2\<close> are applied to \<open>d1\<close>.
\<close>

theorem drain_reports_to_installed_policy_and_continues:
  assumes "arena_inv a (r1 @ (c, w) # r2)"
    and "apply_all V (ep a) ostr istr (map snd r1) d = Inr d0"
    and "\<not> is_a V Formatter_base w \<or> ostr" and "\<not> is_a V Parser_base w \<or> istr"
    and "apply_item V w d0 = (Some x, d1)"
  shows "drain V ostr istr a d
           = Some (apply_all V (ep a) ostr istr (map snd r2)
               (case ep a of
                  None \<Rightarrow> d1
                | Some h \<Rightarrow>
                    if is_boost_exception x then catch_boost_exception h x d1
                    else if is_std_exception x then catch_std_exception h x d1
                    else catch_unknown_exception h d1))"
  by (simp add: drain_arena_items[OF assms(1)] apply_all_append assms(2)
      drain_worklet_throws[OF assms(3,4,5)])

theorem drain_reports_to_installed_policy_and_continues_witness:
  "arena_inv ex_two_items ([] @ ((0, 0), Work ''boom'') # [((0, 4), Work ''ok'')])
   \<and> ep ex_two_items = Some ex_policy
   \<and> arena_inv ex_no_policy ([] @ ((0, 0), Work ''boom'') # [((0, 4), Work ''ok'')])
   \<and> ep ex_no_policy = None
   \<and> apply_item ex_worklets (Work ''boom'') [] = (Some (Exception False True), [])
   \<and> drain ex_worklets True False ex_two_items [] = Some (Inr [''<generic>'', ''ok''])
   \<and> drain ex_worklets True False ex_no_policy [] = Some (Inr [''ok''])"
proof -
  have i: "arena_inv ex_two_items ([] @ ((0, 0), Work ''boom'') # [((0, 4), Work ''ok'')])"
    using ex_two_items_inv by simp
  have j: "arena_inv ex_no_policy ([] @ ((0, 0), Work ''boom'') # [((0, 4), Work ''ok'')])"
    using ex_no_policy_inv by simp
  have e: "ep ex_two_items = Some ex_policy" by (simp add: ex_two_items_def)
  have f: "ep ex_no_policy = None" by (simp add: ex_no_policy_def)
  have a: "apply_item ex_worklets (Work ''boom'') [] = (Some (Exception False True), [])"
    by (simp add: ex_worklets_def)
  have 1: "drain ex_worklets True False ex_two_items [] = Some (Inr [''<generic>'', ''ok''])"
    using drain_reports_to_installed_policy_and_continues[OF i _ _ _ a, of True False "[]"]
    by (simp add: e drain_worklet_def ex_worklets_def ex_policy_def)
  have 2: "drain ex_worklets True False ex_no_policy [] = Some (Inr [''ok''])"
    using drain_reports_to_installed_policy_and_continues[OF j _ _ _ a, of True False "[]"]
    by (simp add: f drain_worklet_def ex_worklets_def)
  show ?thesis using i j e f a 1 2 by blast
qed

subsection \<open>clear\<close>




subsection \<open>Growth\<close>

lemma in_record_no_fit:
  "\<not> ptr_less (ptr_add (cursor ex_in_record) (words 5000)) (end_of_page ex_in_record)"
  by (simp add: ex_in_record_def ptr_less_def ptr_add_def words_def sizeof_size_t_def)

text \<open>
  C7. The arena \<open>ex_in_record\<close> has one page of 4088 bytes and a record in progress.
  \<^verbatim>\<open>allocate(5000)\<close> does not fit and adds a page. The claim gives the new page
  \<open>max (2 * 4088) (2 * 5000) = 10000\<close> bytes, 1250 words; the code, which has decremented
  the size before doubling it, builds the page from 9998 bytes, and the page has 1249 words,
  9992 bytes.
\<close>

theorem allocate_grows_by_decremented_size:
  "map capacity (pages ex_in_record) = [4088]
   \<and> map_sum id (\<lambda>r. map capacity (pages (snd r))) (allocate 5000 ex_in_record) = Inr [4088, 9992]
   \<and> map_sum id (\<lambda>r. map storage_end (pages (snd r))) (allocate 5000 ex_in_record)
       = Inr [511, (2 * (5000 - 1)) div sizeof_size_t]
   \<and> max (2 * 4088) (2 * 5000) = (10000 :: nat)"
proof -
  from allocate_open_grows[OF ex_in_record_inv _ in_record_no_fit] obtain a' where
    "allocate 5000 ex_in_record = Inr ((fresh ex_in_record, 0), a')"
    "pages a' = pages ex_in_record @ [grown_page 5000 ex_in_record]"
    by auto
  then show ?thesis
    by (simp add: ex_in_record_def capacity_def page0_def grown_page_def sizeof_size_t_def Let_def)
qed

subsection \<open>Page breaks\<close>

text \<open>
  Counterexample to C8 as stated. In \<open>ex_in_record\<close> a record is in progress at the start
  of page 0, and the cursor is at word 4. A payload allocation of 5000 bytes cannot be
  completed on the page. \<^verbatim>\<open>allocate\<close> adds page 1 and places no page break in the tail of
  page 0: the word after the cursor is left as it was, the cursor's word holds a null link,
  and the link of the record in progress points past the payload on page 1.
\<close>

theorem payload_growth_places_no_page_break_counterexample:
  "open_inv ex_in_record [] (0, 0) \<and> cursor ex_in_record = (0, 4)
   \<and> map_sum id (\<lambda>r. map pid (pages (snd r))) (allocate 5000 ex_in_record) = Inr [0, 1]
   \<and> map_sum id (\<lambda>r. mem (snd r) (0, 5)) (allocate 5000 ex_in_record) = Inr Junk
   \<and> map_sum id (\<lambda>r. mem (snd r) (0, 4)) (allocate 5000 ex_in_record) = Inr (Link None)
   \<and> map_sum id (\<lambda>r. mem (snd r) (0, 0)) (allocate 5000 ex_in_record) = Inr (Link (Some (1, 626)))"
proof -
  from allocate_open_grows[OF ex_in_record_inv _ in_record_no_fit] obtain a' where
    "allocate 5000 ex_in_record = Inr ((fresh ex_in_record, 0), a')"
    "pages a' = pages ex_in_record @ [grown_page 5000 ex_in_record]"
    "mem a' (cursor ex_in_record) = Link None"
    "mem a' (ptr_add (cursor ex_in_record) 1) = mem ex_in_record (ptr_add (cursor ex_in_record) 1)"
    "mem a' (0, 0) = Link (Some (fresh ex_in_record, words 5000))"
    by auto
  then show ?thesis using ex_in_record_inv
    by (simp add: ex_in_record_def page0_def grown_page_def ptr_add_def words_def sizeof_size_t_def Let_def)
qed

text \<open>
  C8, amended. When \<^verbatim>\<open>add\<close> starts a new record that does not fit in the rest of the tail
  page, a page-break work item is placed at the cursor of the old page and linked into the
  chain: its link points to the start of the new page, where the new record begins, so that
  the walk finds the records before it, then the page break, and arrives at the new record;
  and applying a page break leaves the state as it is. When the payload of a record in
  progress does not fit, no page break is placed: the payload goes to the start of the new
  page, the word after the old cursor is left as it was, and the link of the record in
  progress points past the payload on the new page.
\<close>

theorem page_break_only_for_new_record:
  "(arena_inv a r \<and> \<not> ptr_less (ptr_add (cursor a) (words (n + sizeof_size_t))) (end_of_page a)
      \<longrightarrow> (\<exists>a'. add n a = Inr ((fresh a, 1), a')
             \<and> pages a' = pages a @ [grown_page (n + sizeof_size_t) a]
             \<and> mem a' (ptr_add (cursor a) 1) = Obj Page_break
             \<and> mem a' (cursor a) = Link (Some (fresh a, 0))
             \<and> chain (mem a') (storage_begin (hd (pages a'))) (r @ [(cursor a, Page_break)]) (fresh a, 0)
             \<and> drain_worklet V e ostr istr Page_break d = Inr d))
   \<and> (open_inv b s pc \<and> 0 < k \<and> \<not> ptr_less (ptr_add (cursor b) (words k)) (end_of_page b)
      \<longrightarrow> (\<exists>b'. allocate k b = Inr ((fresh b, 0), b')
             \<and> pages b' = pages b @ [grown_page k b]
             \<and> mem b' (cursor b) = Link None
             \<and> mem b' (ptr_add (cursor b) 1) = mem b (ptr_add (cursor b) 1)
             \<and> mem b' pc = Link (Some (fresh b, words k))))"
proof (intro conjI impI)
  assume h: "arena_inv a r \<and> \<not> ptr_less (ptr_add (cursor a) (words (n + sizeof_size_t))) (end_of_page a)"
  from add_opens_grows[of a r n] h obtain a' where
    a: "add n a = Inr ((fresh a, 1), a')" "open_inv a' (r @ [(cursor a, Page_break)]) (fresh a, 0)"
       "pages a' = pages a @ [grown_page (n + sizeof_size_t) a]"
       "mem a' (ptr_add (cursor a) 1) = Obj Page_break" "mem a' (cursor a) = Link (Some (fresh a, 0))"
    by blast
  show "\<exists>a'. add n a = Inr ((fresh a, 1), a')
             \<and> pages a' = pages a @ [grown_page (n + sizeof_size_t) a]
             \<and> mem a' (ptr_add (cursor a) 1) = Obj Page_break
             \<and> mem a' (cursor a) = Link (Some (fresh a, 0))
             \<and> chain (mem a') (storage_begin (hd (pages a'))) (r @ [(cursor a, Page_break)]) (fresh a, 0)
             \<and> drain_worklet V e ostr istr Page_break d = Inr d"
    using a open_invD(2)[OF a(2)] by (intro exI[of _ a']) (simp add: drain_worklet_page_break)
next
  assume h: "open_inv b s pc \<and> 0 < k \<and> \<not> ptr_less (ptr_add (cursor b) (words k)) (end_of_page b)"
  from allocate_open_grows[of b s pc k] h
  show "\<exists>b'. allocate k b = Inr ((fresh b, 0), b')
             \<and> pages b' = pages b @ [grown_page k b]
             \<and> mem b' (cursor b) = Link None
             \<and> mem b' (ptr_add (cursor b) 1) = mem b (ptr_add (cursor b) 1)
             \<and> mem b' pc = Link (Some (fresh b, words k))"
    by blast
qed

lemma one_item_no_fit:
  "\<not> ptr_less (ptr_add (cursor ex_one_item) (words (100 + sizeof_size_t))) (end_of_page ex_one_item)"
  by (simp add: ex_one_item_def ptr_less_def ptr_add_def words_def sizeof_size_t_def)

theorem page_break_only_for_new_record_witness:
  "arena_inv ex_one_item [((0, 0), Work ''a'')]
   \<and> \<not> ptr_less (ptr_add (cursor ex_one_item) (words (100 + sizeof_size_t))) (end_of_page ex_one_item)
   \<and> (\<exists>a'. add 100 ex_one_item = Inr ((1, 1), a') \<and> mem a' (0, 503) = Obj Page_break
         \<and> mem a' (0, 502) = Link (Some (1, 0)))
   \<and> open_inv ex_in_record [] (0, 0)
   \<and> \<not> ptr_less (ptr_add (cursor ex_in_record) (words 5000)) (end_of_page ex_in_record)
   \<and> (\<exists>b'. allocate 5000 ex_in_record = Inr ((1, 0), b') \<and> mem b' (0, 4) = Link None
         \<and> mem b' (0, 5) = Junk \<and> mem b' (0, 0) = Link (Some (1, 626)))"
proof -
  note t = page_break_only_for_new_record[of ex_one_item "[((0, 0), Work ''a'')]" 100
      ex_worklets None True True "[]" ex_in_record "[]" "(0, 0)" 5000]
  from t ex_one_item_inv one_item_no_fit obtain a' where
    "add 100 ex_one_item = Inr ((fresh ex_one_item, 1), a')"
    "mem a' (ptr_add (cursor ex_one_item) 1) = Obj Page_break"
    "mem a' (cursor ex_one_item) = Link (Some (fresh ex_one_item, 0))"
    by blast
  then have 1: "\<exists>a'. add 100 ex_one_item = Inr ((1, 1), a') \<and> mem a' (0, 503) = Obj Page_break
         \<and> mem a' (0, 502) = Link (Some (1, 0))"
    by (intro exI[of _ a']) (simp add: ex_one_item_def ptr_add_def)
  have k: "0 < (5000::nat)" by simp
  from t ex_in_record_inv in_record_no_fit k obtain b' where
    "allocate 5000 ex_in_record = Inr ((fresh ex_in_record, 0), b')"
    "mem b' (cursor ex_in_record) = Link None"
    "mem b' (ptr_add (cursor ex_in_record) 1) = mem ex_in_record (ptr_add (cursor ex_in_record) 1)"
    "mem b' (0, 0) = Link (Some (fresh ex_in_record, words 5000))"
    by blast
  then have 2: "\<exists>b'. allocate 5000 ex_in_record = Inr ((1, 0), b') \<and> mem b' (0, 4) = Link None
         \<and> mem b' (0, 5) = Junk \<and> mem b' (0, 0) = Link (Some (1, 626))"
    by (intro exI[of _ b']) (simp add: ex_in_record_def ptr_add_def words_def sizeof_size_t_def)
  show ?thesis using 1 2 ex_one_item_inv one_item_no_fit ex_in_record_inv in_record_no_fit by blast
qed

section \<open>Properties of streams\<close>

subsection \<open>The queue of a quiescent stream\<close>






subsection \<open>Draining\<close>






lemma stream_buffer_same: "s\<lparr>stream_buffer := stream_buffer s\<rparr> = s"
  by simp



subsection \<open>The loop of the destructor\<close>


text \<open>
  While another thread holds the consumer page of a queue that is not empty, and keeps
  it, the loop goes round and does not return.
\<close>

lemma try_drain_congested:
  assumes "initialized (stream_buffer s)" "consuming (stream_buffer s) \<noteq> None"
    and "last_enqueued_sequence_number (stream_buffer s) > last_consumed_sequence_number (stream_buffer s)"
  shows "try_drain E t s d = Some (Inr (False, s, d))"
proof -
  have tc: "try_consume t new_transaction (stream_buffer s)
              = Inr (cr_too_many_consumers, new_transaction, stream_buffer s)"
    using assms
    by (auto simp: try_consume_def try_consume_acquire_def try_lock_def new_transaction_def)
  have cc: "consume_commit t new_transaction (stream_buffer s) = Inr (new_transaction, stream_buffer s)"
    by (simp add: consume_commit_unbound new_transaction_def)
  show ?thesis
    unfolding try_drain_def
    by (subst try_drain_loop.simps) (simp add: tc cc outcome_bits)
qed

lemma drain_until_empty_waits:
  assumes "drain_until_empty E t s d tr = Some y"
  shows "\<not> (initialized (stream_buffer s) \<and> consuming (stream_buffer s) \<noteq> None
           \<and> last_enqueued_sequence_number (stream_buffer s) > last_consumed_sequence_number (stream_buffer s)
           \<and> last_inserted_sequence_number (stream_buffer s) \<noteq> last_consumed_sequence_number (stream_buffer s))"
proof (rule drain_until_empty.raw_induct[where P = "\<lambda>E t s d tr y.
         \<not> (initialized (stream_buffer s) \<and> consuming (stream_buffer s) \<noteq> None
           \<and> last_enqueued_sequence_number (stream_buffer s) > last_consumed_sequence_number (stream_buffer s)
           \<and> last_inserted_sequence_number (stream_buffer s) \<noteq> last_consumed_sequence_number (stream_buffer s))",
         OF _ assms])
  fix f :: "('a, 'b) environment \<Rightarrow> tid \<Rightarrow> ('a, 'b) stream_impl \<Rightarrow> 'b \<Rightarrow> event list
     \<Rightarrow> (fault + ('a, 'b) stream_impl \<times> 'b \<times> event list) option"
    and E t s d tr y
  assume ih: "\<And>E t s d tr y. f E t s d tr = Some y \<Longrightarrow>
         \<not> (initialized (stream_buffer s) \<and> consuming (stream_buffer s) \<noteq> None
           \<and> last_enqueued_sequence_number (stream_buffer s) > last_consumed_sequence_number (stream_buffer s)
           \<and> last_inserted_sequence_number (stream_buffer s) \<noteq> last_consumed_sequence_number (stream_buffer s))"
    and eq: "(case empty_tpd (stream_buffer s) of
        Inl f \<Rightarrow> Some (Inl f)
      | Inr e \<Rightarrow>
         if e then Some (Inr (s, d, tr))
         else
           (case try_drain E t s d of
              None \<Rightarrow> None
            | Some (Inl f) \<Rightarrow> Some (Inl f)
            | Some (Inr (result, s1, d1)) \<Rightarrow>
                if result then f E t s1 (flush E s1 d1) (tr @ [Try_drain True, Flush])
                else f E t s1 d1 (tr @ [Try_drain False]))) = Some y"
  show "\<not> (initialized (stream_buffer s) \<and> consuming (stream_buffer s) \<noteq> None
           \<and> last_enqueued_sequence_number (stream_buffer s) > last_consumed_sequence_number (stream_buffer s)
           \<and> last_inserted_sequence_number (stream_buffer s) \<noteq> last_consumed_sequence_number (stream_buffer s))"
  proof
    assume a: "initialized (stream_buffer s) \<and> consuming (stream_buffer s) \<noteq> None
           \<and> last_enqueued_sequence_number (stream_buffer s) > last_consumed_sequence_number (stream_buffer s)
           \<and> last_inserted_sequence_number (stream_buffer s) \<noteq> last_consumed_sequence_number (stream_buffer s)"
    then have td: "try_drain E t s d = Some (Inr (False, s, d))"
      by (intro try_drain_congested) simp_all
    have "f E t s d (tr @ [Try_drain False]) = Some y"
      using eq a by (simp add: empty_tpd_def td)
    from ih[OF this] a show False by simp
  qed
qed



subsection \<open>Freeing\<close>





subsection \<open>Construction and submission\<close>









subsection \<open>Destroying a stream\<close>





end
